theory Spec2Isabelle
  imports Complex_Main
begin

section \<open>Strings and sequences as Python reads them\<close>

text \<open>
  Strings are lists of characters. The character classes are Python's on the ASCII range:
  \<^verbatim>\<open>str.isspace\<close> and the regex class \<^verbatim>\<open>\s\<close> hold for the codes 9 to 13, 28 to 31
  and 32 (the space); \<^verbatim>\<open>\d\<close> for the decimal digits; \<^verbatim>\<open>\w\<close> for letters, digits and
  the underscore. Characters beyond ASCII are outside the model.
\<close>

datatype py_error = ValueError | KeyError

definition is_space :: "char \<Rightarrow> bool" where
  "is_space c = (c \<in> set [CHR 0x09, CHR 0x0A, CHR 0x0B, CHR 0x0C, CHR 0x0D,
                            CHR 0x1C, CHR 0x1D, CHR 0x1E, CHR 0x1F, CHR 0x20])"

definition is_digit :: "char \<Rightarrow> bool" where
  "is_digit c = (c \<in> set ''0123456789'')"

definition is_word :: "char \<Rightarrow> bool" where
  "is_word c = (c \<in> set ''abcdefghijklmnopqrstuvwxyzABCDEFGHIJKLMNOPQRSTUVWXYZ0123456789_'')"

definition lower_char :: "char \<Rightarrow> char" where
  "lower_char c =
     (case map_of (zip ''ABCDEFGHIJKLMNOPQRSTUVWXYZ'' ''abcdefghijklmnopqrstuvwxyz'') c of
        None \<Rightarrow> c | Some l \<Rightarrow> l)"

definition lower :: "string \<Rightarrow> string" where
  "lower s = map lower_char s"

text \<open>\<^verbatim>\<open>s.startswith(p)\<close> and \<^verbatim>\<open>needle in hay\<close>: the needle occurs as a contiguous run.\<close>

fun starts_with :: "string \<Rightarrow> string \<Rightarrow> bool" where
  "starts_with s [] = True"
| "starts_with [] (p # ps) = False"
| "starts_with (c # cs) (p # ps) = (c = p \<and> starts_with cs ps)"

fun contains :: "string \<Rightarrow> string \<Rightarrow> bool" where
  "contains [] needle = (needle = [])"
| "contains (c # cs) needle = (starts_with (c # cs) needle \<or> contains cs needle)"

text \<open>\<^verbatim>\<open>s.strip()\<close>: leading and trailing whitespace removed.\<close>

definition strip :: "string \<Rightarrow> string" where
  "strip s = rev (dropWhile is_space (rev (dropWhile is_space s)))"

text \<open>
  \<^verbatim>\<open>s.split()\<close>: the maximal runs of non-whitespace characters, in order. The accumulator
  holds the current run, reversed.
\<close>

fun split_acc :: "string \<Rightarrow> string \<Rightarrow> string list" where
  "split_acc acc [] = (if acc = [] then [] else [rev acc])"
| "split_acc acc (c # cs) =
     (if is_space c then (if acc = [] then split_acc [] cs else rev acc # split_acc [] cs)
      else split_acc (c # acc) cs)"

definition split_ws :: "string \<Rightarrow> string list" where
  "split_ws s = split_acc [] s"

text \<open>\<^verbatim>\<open>sep.join(parts)\<close>.\<close>

fun join :: "string \<Rightarrow> string list \<Rightarrow> string" where
  "join sep [] = []"
| "join sep [x] = x"
| "join sep (x # y # ys) = x @ sep @ join sep (y # ys)"

text \<open>
  Slices. A bound \<open>i\<close> of a slice over a sequence of length \<open>n\<close> counts from the end when
  negative and is clamped to \<open>0..n\<close>; \<^verbatim>\<open>xs[i:j]\<close> is empty when the start is not before
  the stop (the subtraction on \<open>nat\<close> truncates at 0).
\<close>

definition py_bound :: "nat \<Rightarrow> int \<Rightarrow> nat" where
  "py_bound n i = (if i < 0 then nat (max 0 (int n + i)) else min (nat i) n)"

definition py_slice :: "'a list \<Rightarrow> int \<Rightarrow> int \<Rightarrow> 'a list" where
  "py_slice xs i j =
     (let a = py_bound (length xs) i; b = py_bound (length xs) j in take (b - a) (drop a xs))"

definition py_slice_from :: "'a list \<Rightarrow> int \<Rightarrow> 'a list" where
  "py_slice_from xs i = drop (py_bound (length xs) i) xs"

definition py_slice_to :: "'a list \<Rightarrow> int \<Rightarrow> 'a list" where
  "py_slice_to xs j = take (py_bound (length xs) j) xs"

text \<open>
  \<^verbatim>\<open>range(start, stop, step)\<close>: a zero step raises \<^verbatim>\<open>ValueError\<close>; a positive step counts
  up while below the stop, a negative one down while above it.
\<close>

function range_up :: "int \<Rightarrow> int \<Rightarrow> int \<Rightarrow> int list" where
  "range_up i stop step =
     (if 0 < step \<and> i < stop then i # range_up (i + step) stop step else [])"
  by pat_completeness auto
termination
  by (relation "measure (\<lambda>(i, stop, step). nat (stop - i))") auto

declare range_up.simps [simp del]

function range_down :: "int \<Rightarrow> int \<Rightarrow> int \<Rightarrow> int list" where
  "range_down i stop step =
     (if step < 0 \<and> stop < i then i # range_down (i + step) stop step else [])"
  by pat_completeness auto
termination
  by (relation "measure (\<lambda>(i, stop, step). nat (i - stop))") auto

declare range_down.simps [simp del]

definition py_range :: "int \<Rightarrow> int \<Rightarrow> int \<Rightarrow> py_error + int list" where
  "py_range start stop step =
     (if step = 0 then Inl ValueError
      else if 0 < step then Inr (range_up start stop step)
      else Inr (range_down start stop step))"

text \<open>\<^verbatim>\<open>str(n)\<close> for an integer: decimal digits, with a minus sign when negative.\<close>

definition digit_char :: "nat \<Rightarrow> char" where
  "digit_char d = ''0123456789'' ! (d mod 10)"

function str_nat :: "nat \<Rightarrow> string" where
  "str_nat n = (if n < 10 then [digit_char n] else str_nat (n div 10) @ [digit_char (n mod 10)])"
  by pat_completeness auto
termination
  by (relation "measure (\<lambda>n. n)") auto

declare str_nat.simps [simp del]

definition str_int :: "int \<Rightarrow> string" where
  "str_int i = (if i < 0 then CHR ''-'' # str_nat (nat (- i)) else str_nat (nat i))"

text \<open>\<^verbatim>\<open>str(x)\<close> for an optional string, as an f-string formats it.\<close>

definition str_opt :: "string option \<Rightarrow> string" where
  "str_opt x = (case x of None \<Rightarrow> ''None'' | Some s \<Rightarrow> s)"

text \<open>\<^verbatim>\<open>a or b\<close> on optional strings: \<open>a\<close> unless it is \<^verbatim>\<open>None\<close> or empty.\<close>

definition or_else :: "string option \<Rightarrow> string option \<Rightarrow> string option" where
  "or_else a b = (case a of None \<Rightarrow> b | Some s \<Rightarrow> if s = [] then b else Some s)"

section \<open>The data model\<close>

text \<open>
  A \<^verbatim>\<open>Paper\<close> as the fetchers build it. Of a publication date only the year is read.
  The fields \<^verbatim>\<open>pdf_url\<close> and \<^verbatim>\<open>keywords\<close> are read by none of the code below and are
  left out.
\<close>

datatype pub_date = DateTime (date_year: int) | DateStr string

record paper =
  title :: string
  authors :: "string list"
  abstract :: string
  content :: "string option"
  url :: "string option"
  published_date :: "pub_date option"
  journal :: "string option"
  doi :: "string option"
  arxiv_id :: "string option"
  pubmed_id :: "string option"

text \<open>
  The metadata dictionary of a chunk, as \<^verbatim>\<open>_create_chunk\<close> writes it and as the vector store
  hands it back. The keys \<^verbatim>\<open>paper_title\<close> and \<^verbatim>\<open>paper_authors\<close> are also read with a
  default (\<^verbatim>\<open>metadata.get(key, default)\<close>), which tells a missing key from a key whose value
  is \<^verbatim>\<open>None\<close>: they are entries. The other keys are only read with \<^verbatim>\<open>metadata.get(key)\<close>,
  where a missing key and a \<^verbatim>\<open>None\<close> value are the same \<open>None\<close>.
\<close>

datatype 'a entry = Missing | Null | Val 'a

text \<open>\<^verbatim>\<open>d.get(key)\<close> and \<^verbatim>\<open>d.get(key, default)\<close>; the result \<open>None\<close> is Python's \<^verbatim>\<open>None\<close>.\<close>

definition get :: "'a entry \<Rightarrow> 'a option" where
  "get e = (case e of Missing \<Rightarrow> None | Null \<Rightarrow> None | Val x \<Rightarrow> Some x)"

definition get_default :: "'a entry \<Rightarrow> 'a \<Rightarrow> 'a option" where
  "get_default e d = (case e of Missing \<Rightarrow> Some d | Null \<Rightarrow> None | Val x \<Rightarrow> Some x)"

record metadata =
  paper_title :: "string entry"
  paper_authors :: "string list entry"
  paper_url :: "string option"
  paper_published_date :: "pub_date option"
  paper_journal :: "string option"
  paper_doi :: "string option"
  paper_arxiv_id :: "string option"
  paper_pubmed_id :: "string option"
  chunk_type :: "string option"

text \<open>The dataclass \<^verbatim>\<open>Chunk\<close>.\<close>

record chunk =
  chunk_text :: string
  chunk_id :: string
  chunk_paper_title :: string
  chunk_paper_url :: "string option"
  chunk_paper_authors :: "string list"
  start_char :: int
  end_char :: int
  chunk_metadata :: metadata

text \<open>
  A retrieval result is the dictionary \<^verbatim>\<open>VectorStore.search\<close> builds (chunk id, text,
  metadata, similarity), with the two keys the retriever adds: \<^verbatim>\<open>from_expanded_query\<close> and
  \<^verbatim>\<open>query_metadata\<close> (the query type and the search terms). The citation formatter reads
  its chunks with \<^verbatim>\<open>chunk.get('text', '')\<close> and \<^verbatim>\<open>chunk.get('metadata', {})\<close>: a missing
  text is the empty string and a missing metadata dictionary has every key missing. A similarity is a finite
  floating-point number; the retriever only compares similarities and does no arithmetic on
  them, so each stands here as the real number it denotes.
\<close>

record result =
  res_chunk_id :: string
  res_text :: string
  res_metadata :: metadata
  similarity :: real
  from_expanded_query :: bool
  query_metadata :: "(string \<times> string list) option"

text \<open>The dataclass \<^verbatim>\<open>Citation\<close>; \<open>None\<close> is Python's \<^verbatim>\<open>None\<close>.\<close>

record citation =
  cit_paper_title :: "string option"
  cit_authors :: "string list option"
  cit_year :: "int option"
  cit_journal :: "string option"
  cit_doi :: "string option"
  cit_url :: "string option"
  cit_arxiv_id :: "string option"
  cit_pubmed_id :: "string option"
  citation_number :: "int option"

text \<open>The settings of \<^verbatim>\<open>Config\<close> the retriever reads; they come from the environment.\<close>

record config =
  TOP_K_RETRIEVAL :: int
  SIMILARITY_THRESHOLD :: real

section \<open>\<^verbatim>\<open>TextProcessor\<close>\<close>

subsection \<open>Regular-expression substitution and splitting\<close>

text \<open>
  \<^verbatim>\<open>re.sub(r'\s+', ' ', s)\<close>: every maximal run of whitespace becomes one space. The flag
  says that the previous character was whitespace, so the run is already replaced.
\<close>

fun collapse_from :: "bool \<Rightarrow> string \<Rightarrow> string" where
  "collapse_from in_run [] = []"
| "collapse_from in_run (c # cs) =
     (if is_space c then (if in_run then collapse_from True cs else CHR 0x20 # collapse_from True cs)
      else c # collapse_from False cs)"

definition collapse_ws :: "string \<Rightarrow> string" where
  "collapse_ws s = collapse_from False s"

text \<open>
  \<^verbatim>\<open>re.sub(pattern, '', s)\<close> for a pattern that matches no empty string. A matcher gives the
  length of the match that starts at the head of its argument, if there is one. The scan goes
  left to right; a match is removed and the scan goes on behind it.
\<close>

function re_sub_del :: "(string \<Rightarrow> nat option) \<Rightarrow> string \<Rightarrow> string" where
  "re_sub_del m [] = []"
| "re_sub_del m (c # cs) =
     (case m (c # cs) of
        None \<Rightarrow> c # re_sub_del m cs
      | Some n \<Rightarrow> re_sub_del m (drop (n - 1) cs))"
  by pat_completeness auto
termination
  by (relation "measure (\<lambda>(m, s). length s)") auto

text \<open>
  \<^verbatim>\<open>re.split(pattern, s)\<close> for a pattern without groups that matches no empty string: the
  pieces between the matches. The accumulator holds the current piece, reversed.
\<close>

function re_split_acc :: "(string \<Rightarrow> nat option) \<Rightarrow> string \<Rightarrow> string \<Rightarrow> string list" where
  "re_split_acc m acc [] = [rev acc]"
| "re_split_acc m acc (c # cs) =
     (case m (c # cs) of
        None \<Rightarrow> re_split_acc m (c # acc) cs
      | Some n \<Rightarrow> rev acc # re_split_acc m [] (drop (n - 1) cs))"
  by pat_completeness auto
termination
  by (relation "measure (\<lambda>(m, acc, s). length s)") auto

definition re_split :: "(string \<Rightarrow> nat option) \<Rightarrow> string \<Rightarrow> string list" where
  "re_split m s = re_split_acc m [] s"

subsection \<open>The patterns of \<^verbatim>\<open>remove_citations\<close> and \<^verbatim>\<open>extract_paragraphs\<close>\<close>

text \<open>
  \<^verbatim>\<open>\[\d+(?:,\s*\d+)*\]\<close>: an opening bracket, a run of digits, any number of groups of a
  comma, whitespace and a run of digits, a closing bracket. The greedy runs are maximal:
  giving a character back never lets the rest match. \<open>digits1\<close> is \<^verbatim>\<open>\d+\<close>.
\<close>

definition digits1 :: "string \<Rightarrow> nat option" where
  "digits1 s = (let k = length (takeWhile is_digit s) in if k = 0 then None else Some k)"

function bracket_tail :: "string \<Rightarrow> nat option" where
  "bracket_tail s =
     (case s of
        [] \<Rightarrow> None
      | c # r \<Rightarrow>
          if c = CHR '']'' then Some 1
          else if c = CHR '','' then
            (let w = length (takeWhile is_space r) in
             case digits1 (drop w r) of
               None \<Rightarrow> None
             | Some k \<Rightarrow>
                 (case bracket_tail (drop k (drop w r)) of
                    None \<Rightarrow> None
                  | Some t \<Rightarrow> Some (1 + w + k + t)))
          else None)"
  by pat_completeness auto
termination
  by (relation "measure length") auto

declare bracket_tail.simps [simp del]

definition match_bracket_cite :: "string \<Rightarrow> nat option" where
  "match_bracket_cite s =
     (case s of
        [] \<Rightarrow> None
      | c # r \<Rightarrow>
          if c = CHR ''['' then
            (case digits1 r of
               None \<Rightarrow> None
             | Some k \<Rightarrow>
                 (case bracket_tail (drop k r) of None \<Rightarrow> None | Some t \<Rightarrow> Some (1 + k + t)))
          else None)"

text \<open>
  \<^verbatim>\<open>\([^)]*\d{4}[^)]*\)\<close>: an opening parenthesis, then up to the first closing one, with
  four digits in a row somewhere in between.
\<close>

fun has_four_digits :: "string \<Rightarrow> bool" where
  "has_four_digits [] = False"
| "has_four_digits (c # cs) =
     ((length (takeWhile is_digit (take 4 (c # cs))) = 4) \<or> has_four_digits cs)"

definition match_paren_cite :: "string \<Rightarrow> nat option" where
  "match_paren_cite s =
     (case s of
        [] \<Rightarrow> None
      | c # r \<Rightarrow>
          if c = CHR ''('' then
            (let inner = takeWhile (\<lambda>x. x \<noteq> CHR '')'') r in
             if length inner < length r \<and> has_four_digits inner
             then Some (length inner + 2) else None)
          else None)"

text \<open>
  \<^verbatim>\<open>\w+\s+et\s+al\.\s*\(\d{4}\)\<close>, ignoring case: a word, whitespace, "et", whitespace,
  "al.", optional whitespace, and a year of four digits in parentheses.
\<close>

definition match_year_paren :: "string \<Rightarrow> bool" where
  "match_year_paren s =
     (case s of
        p # d1 # d2 # d3 # d4 # q # r \<Rightarrow>
          p = CHR ''('' \<and> is_digit d1 \<and> is_digit d2 \<and> is_digit d3 \<and> is_digit d4 \<and> q = CHR '')''
      | _ \<Rightarrow> False)"

definition match_et_al :: "string \<Rightarrow> nat option" where
  "match_et_al s =
     (let w = length (takeWhile is_word s); r1 = drop w s;
          s1 = length (takeWhile is_space r1); r2 = drop s1 r1;
          s2 = length (takeWhile is_space (drop 2 r2)); r3 = drop s2 (drop 2 r2);
          s3 = length (takeWhile is_space (drop 3 r3)); r4 = drop s3 (drop 3 r3)
      in if 0 < w \<and> 0 < s1 \<and> lower (take 2 r2) = ''et'' \<and> 0 < s2 \<and>
            lower (take 2 r3) = ''al'' \<and> take 1 (drop 2 r3) = ''.'' \<and> match_year_paren r4
         then Some (w + s1 + 2 + s2 + 3 + s3 + 6) else None)"

text \<open>
  \<^verbatim>\<open>\n\s*\n|\r\n\s*\r\n\<close>: a line feed, whitespace, and a line feed; or the same with
  carriage return and line feed. The whitespace run is greedy, so the match ends at the last
  line feed (or the last carriage return and line feed) of the whitespace that follows.
\<close>

definition last_lf_end :: "string \<Rightarrow> nat" where
  "last_lf_end w = length (dropWhile (\<lambda>x. x \<noteq> CHR 0x0A) (rev w))"

fun last_crlf_end :: "string \<Rightarrow> nat option" where
  "last_crlf_end [] = None"
| "last_crlf_end (c # cs) =
     (case last_crlf_end cs of
        Some k \<Rightarrow> Some (Suc k)
      | None \<Rightarrow> if c = CHR 0x0D \<and> take 1 cs = [CHR 0x0A] then Some 2 else None)"

definition match_para_sep :: "string \<Rightarrow> nat option" where
  "match_para_sep s =
     (case s of
        [] \<Rightarrow> None
      | c # r \<Rightarrow>
          if c = CHR 0x0A then
            (let e = last_lf_end (takeWhile is_space r) in if e = 0 then None else Some (1 + e))
          else if c = CHR 0x0D \<and> take 1 r = [CHR 0x0A] then
            (case last_crlf_end (takeWhile is_space (drop 1 r)) of
               None \<Rightarrow> None | Some e \<Rightarrow> Some (2 + e))
          else None)"

subsection \<open>The methods\<close>

text \<open>
  The characters \<^verbatim>\<open>clean_text\<close> keeps: word characters, whitespace, and the punctuation
  \<^verbatim>\<open>. , ; : ! ? - ( ) [ ] { } " ' / \\<close>. Every other character becomes a space.
\<close>

definition keep_char :: "char \<Rightarrow> bool" where
  "keep_char c = (is_word c \<or> is_space c \<or>
     c \<in> set (''.,;:!?-()[]{}/'' @ [CHR 0x22, CHR 0x27, CHR 0x5C]))"

definition clean_text :: "string \<Rightarrow> string" where
  "clean_text s =
     (if s = [] then []
      else strip (collapse_ws (map (\<lambda>c. if keep_char c then c else CHR 0x20) (collapse_ws s))))"

definition extract_paragraphs :: "string \<Rightarrow> string list" where
  "extract_paragraphs s =
     (if s = [] then []
      else filter (\<lambda>cleaned. cleaned \<noteq> [] \<and> 50 < length cleaned)
             (map clean_text (re_split match_para_sep s)))"

definition remove_citations :: "string \<Rightarrow> string" where
  "remove_citations s =
     (if s = [] then []
      else strip (collapse_ws
             (re_sub_del match_et_al (re_sub_del match_paren_cite (re_sub_del match_bracket_cite s)))))"

definition preprocess_paper_content :: "string \<Rightarrow> string \<Rightarrow> string \<Rightarrow> string" where
  "preprocess_paper_content ttl abstr cont =
     (let full_text = ''Title: '' @ ttl @ [CHR 0x0A, CHR 0x0A] @ ''Abstract: '' @ abstr;
          full_text = (if cont \<noteq> [] then full_text @ [CHR 0x0A, CHR 0x0A] @ ''Content: '' @ cont
                       else full_text)
      in remove_citations (clean_text full_text))"

section \<open>\<^verbatim>\<open>SemanticChunker\<close>\<close>

record chunker =
  chunk_size :: int
  chunk_overlap :: int

definition create_chunk :: "string \<Rightarrow> paper \<Rightarrow> int \<Rightarrow> int \<Rightarrow> chunk" where
  "create_chunk txt p start stop =
     (let paper_id = or_else (arxiv_id p) (pubmed_id p) in
      \<lparr>chunk_text = txt,
       chunk_id = str_opt paper_id @ ''_'' @ str_int start @ ''_'' @ str_int stop,
       chunk_paper_title = title p,
       chunk_paper_url = url p,
       chunk_paper_authors = authors p,
       start_char = start,
       end_char = stop,
       chunk_metadata =
         \<lparr>paper_title = Val (title p), paper_authors = Val (authors p), paper_url = url p,
          paper_published_date = published_date p, paper_journal = journal p,
          paper_doi = doi p, paper_arxiv_id = None, paper_pubmed_id = None,
          chunk_type = Some ''semantic''\<rparr>\<rparr>)"

text \<open>
  \<^verbatim>\<open>_simple_chunk\<close>: windows of \<open>chunk_size\<close> characters at the offsets
  \<^verbatim>\<open>range(0, len(text), chunk_size - chunk_overlap)\<close>; a window of whitespace only is skipped.
\<close>

definition simple_window :: "chunker \<Rightarrow> string \<Rightarrow> paper \<Rightarrow> int \<Rightarrow> chunk list" where
  "simple_window ck txt p i =
     (let piece = py_slice txt i (i + chunk_size ck) in
      if strip piece \<noteq> [] then [create_chunk piece p i (i + int (length piece))] else [])"

definition simple_chunk :: "chunker \<Rightarrow> string \<Rightarrow> paper \<Rightarrow> py_error + chunk list" where
  "simple_chunk ck txt p =
     (case py_range 0 (int (length txt)) (chunk_size ck - chunk_overlap ck) of
        Inl e \<Rightarrow> Inl e
      | Inr offsets \<Rightarrow> Inr (concat (map (simple_window ck txt p) offsets)))"

text \<open>
  The paragraph loop of \<^verbatim>\<open>chunk_paper\<close>. Its state is the chunks so far, the running
  buffer \<open>current_chunk\<close> and its offset \<open>chunk_start\<close>. The first equation is the code after
  the loop (the last chunk).
\<close>

definition flush :: "paper \<Rightarrow> chunk list \<Rightarrow> string \<Rightarrow> int \<Rightarrow> chunk list" where
  "flush p chunks current_chunk chunk_start =
     (if strip current_chunk \<noteq> []
      then chunks @ [create_chunk current_chunk p chunk_start
                       (chunk_start + int (length current_chunk))]
      else chunks)"

fun chunk_paragraphs ::
  "chunker \<Rightarrow> paper \<Rightarrow> string list \<Rightarrow> chunk list \<Rightarrow> string \<Rightarrow> int \<Rightarrow> chunk list" where
  "chunk_paragraphs ck p [] chunks current_chunk chunk_start =
     flush p chunks current_chunk chunk_start"
| "chunk_paragraphs ck p (paragraph # rest) chunks current_chunk chunk_start =
     (if int (length current_chunk) + int (length paragraph) + 2 \<le> chunk_size ck then
        chunk_paragraphs ck p rest chunks
          (if current_chunk \<noteq> [] then current_chunk @ [CHR 0x0A, CHR 0x0A] @ paragraph
           else paragraph)
          chunk_start
      else if 0 < chunk_overlap ck \<and> chunk_overlap ck < int (length current_chunk) then
        (let overlap_text = py_slice_from current_chunk (- chunk_overlap ck);
             new_chunk = overlap_text @ [CHR 0x0A, CHR 0x0A] @ paragraph
         in chunk_paragraphs ck p rest (flush p chunks current_chunk chunk_start) new_chunk
              (chunk_start + int (length new_chunk) - int (length overlap_text)))
      else
        chunk_paragraphs ck p rest (flush p chunks current_chunk chunk_start) paragraph
          (chunk_start + int (length paragraph)))"

definition preprocess_paper :: "paper \<Rightarrow> string" where
  "preprocess_paper p =
     preprocess_paper_content (title p) (abstract p)
       (case content p of None \<Rightarrow> [] | Some c \<Rightarrow> c)"

definition chunk_paper :: "chunker \<Rightarrow> paper \<Rightarrow> py_error + chunk list" where
  "chunk_paper ck p =
     (let full_text = preprocess_paper p;
          paragraphs = extract_paragraphs full_text
      in if paragraphs = [] then simple_chunk ck full_text p
         else Inr (chunk_paragraphs ck p paragraphs [] [] 0))"

text \<open>\<^verbatim>\<open>chunk_multiple_papers\<close>: a paper whose chunking raises is logged and skipped.\<close>

definition chunk_multiple_papers :: "chunker \<Rightarrow> paper list \<Rightarrow> chunk list" where
  "chunk_multiple_papers ck papers =
     concat (map (\<lambda>p. case chunk_paper ck p of Inl e \<Rightarrow> [] | Inr chunks \<Rightarrow> chunks) papers)"

section \<open>The shape of preprocessed text\<close>

text \<open>
  \<open>spaced prev s\<close>: the only whitespace in \<open>s\<close> is the space character, and no two spaces
  are adjacent; \<open>prev\<close> says that a space stands right before \<open>s\<close>. A string is \<open>tidy\<close>
  when it moreover neither starts nor ends with a space.
\<close>

fun spaced :: "bool \<Rightarrow> string \<Rightarrow> bool" where
  "spaced prev [] = True"
| "spaced prev (c # cs) =
     (if is_space c then c = CHR 0x20 \<and> \<not> prev \<and> spaced True cs else spaced False cs)"

definition tidy :: "string \<Rightarrow> bool" where
  "tidy s = (spaced True s \<and> (s = [] \<or> \<not> is_space (last s)))"

section \<open>\<^verbatim>\<open>QueryProcessor\<close>\<close>

text \<open>
  Key phrases come from the spaCy pipeline, which is not part of the repository. The pipeline
  is a parameter: \<open>nlp\<close> is \<open>None\<close> when the language model is not installed, and otherwise
  gives, for a text, the noun chunks and the named entities with their labels.
  \<^verbatim>\<open>list(set(xs))\<close> lists the distinct elements of \<open>xs\<close> in an order Python does not
  specify: \<open>set_order\<close> is the parameter that orders them.
\<close>

record doc =
  noun_chunks :: "string list"
  ents :: "(string \<times> string) list"

record nlp_env =
  nlp :: "(string \<Rightarrow> doc) option"
  set_order :: "string list \<Rightarrow> string list"

definition list_of_set :: "nlp_env \<Rightarrow> string list \<Rightarrow> string list" where
  "list_of_set env xs = set_order env (remdups xs)"

definition extract_key_phrases :: "nlp_env \<Rightarrow> string \<Rightarrow> int \<Rightarrow> string list" where
  "extract_key_phrases env s max_phrases =
     (case nlp env of
        None \<Rightarrow> []
      | Some pipeline \<Rightarrow>
          if s = [] then []
          else
            let d = pipeline s;
                phrases =
                  filter (\<lambda>c. length (split_ws c) \<le> 4) (noun_chunks d) @
                  map fst (filter (\<lambda>e. snd e \<in> set [''PERSON'', ''ORG'', ''GPE'', ''PRODUCT'', ''EVENT''])
                             (ents d))
            in py_slice_to (list_of_set env phrases) max_phrases)"

definition preprocess_query :: "string \<Rightarrow> string" where
  "preprocess_query query =
     (if query = [] then [] else strip (collapse_ws (clean_text query)))"

definition create_query_variations :: "string \<Rightarrow> string \<Rightarrow> string list" where
  "create_query_variations key_phrase original_query =
     (let patterns =
        [''research on '' @ key_phrase,
         key_phrase @ '' studies'',
         key_phrase @ '' analysis'',
         key_phrase @ '' methods'',
         key_phrase @ '' applications'',
         ''recent '' @ key_phrase,
         key_phrase @ '' overview'']
      in take 2 (filter (\<lambda>pattern. lower pattern \<noteq> lower original_query) patterns))"

text \<open>The inner loop of \<^verbatim>\<open>expand_query\<close> over the variations of one phrase.\<close>

fun add_variations :: "int \<Rightarrow> string list \<Rightarrow> string list \<Rightarrow> string list" where
  "add_variations max_expansions [] expanded = expanded"
| "add_variations max_expansions (variation # variations) expanded =
     add_variations max_expansions variations
       (if variation \<notin> set expanded \<and> int (length expanded) < max_expansions
        then expanded @ [variation] else expanded)"

text \<open>The outer loop over the key phrases.\<close>

fun expand_phrases :: "int \<Rightarrow> string \<Rightarrow> string list \<Rightarrow> string list \<Rightarrow> string list" where
  "expand_phrases max_expansions query [] expanded = expanded"
| "expand_phrases max_expansions query (phrase # phrases) expanded =
     expand_phrases max_expansions query phrases
       (add_variations max_expansions (create_query_variations phrase query)
          (if phrase \<notin> set expanded then expanded @ [phrase] else expanded))"

definition expand_query :: "nlp_env \<Rightarrow> string \<Rightarrow> int \<Rightarrow> string list" where
  "expand_query env query max_expansions =
     (if query = [] then []
      else py_slice_to
             (expand_phrases max_expansions query
                (extract_key_phrases env query max_expansions) [query])
             max_expansions)"

definition classify_query_type :: "string \<Rightarrow> string" where
  "classify_query_type query =
     (let query_lower = lower query in
      if list_ex (starts_with query_lower)
           [''what'', ''how'', ''why'', ''when'', ''where'', ''who'', ''which'', ''is'', ''are'',
            ''do'', ''does'', ''can'', ''could'', ''should'', ''would'']
      then ''question''
      else if list_ex (contains query_lower)
           [''compare'', ''difference'', ''versus'', ''vs'', ''better'', ''worse'',
            ''advantages'', ''disadvantages'']
      then ''comparison''
      else if list_ex (contains query_lower)
           [''summary'', ''overview'', ''review'', ''survey'', ''introduction'', ''background'']
      then ''summary''
      else if list_ex (contains query_lower)
           [''method'', ''technique'', ''approach'', ''algorithm'', ''procedure'', ''process'']
      then ''method''
      else ''general'')"

definition query_stop_words :: "string list" where
  "query_stop_words =
     [''the'', ''a'', ''an'', ''and'', ''or'', ''but'', ''in'', ''on'', ''at'', ''to'', ''for'',
      ''of'', ''with'', ''by'', ''is'', ''are'', ''was'', ''were'', ''be'', ''been'', ''have'',
      ''has'', ''had'', ''do'', ''does'', ''did'', ''will'', ''would'', ''could'', ''should'',
      ''may'', ''might'', ''can'', ''this'', ''that'', ''these'', ''those'', ''i'', ''you'',
      ''he'', ''she'', ''it'', ''we'', ''they'']"

definition extract_search_terms :: "nlp_env \<Rightarrow> string \<Rightarrow> string list" where
  "extract_search_terms env query =
     (if query = [] then []
      else
        let cleaned_query = preprocess_query query;
            key_phrases = extract_key_phrases env cleaned_query 5;
            important_words =
              filter (\<lambda>w. 2 < length w \<and> lower w \<notin> set query_stop_words) (split_ws cleaned_query)
        in py_slice_to (list_of_set env (key_phrases @ important_words)) 10)"

record processed =
  original_query :: string
  processed_query :: string
  query_type :: string
  search_terms :: "string list"
  expanded_queries :: "string list"

definition optimize_query_for_retrieval :: "nlp_env \<Rightarrow> string \<Rightarrow> processed" where
  "optimize_query_for_retrieval env query =
     \<lparr>original_query = query,
      processed_query = preprocess_query query,
      query_type = classify_query_type query,
      search_terms = extract_search_terms env query,
      expanded_queries = expand_query env query 3\<rparr>"

section \<open>\<^verbatim>\<open>Retriever.retrieve\<close>\<close>

text \<open>
  The vector store is a parameter: \<open>search query top_k threshold\<close> gives the results, or
  \<open>None\<close> when the call raises. \<open>meets_threshold\<close> is the assumption that a search only
  returns results whose similarity is at least the threshold it was given.
\<close>

type_synonym vector_search = "string \<Rightarrow> int \<Rightarrow> real \<Rightarrow> result list option"

definition meets_threshold :: "vector_search \<Rightarrow> bool" where
  "meets_threshold search =
     (\<forall>q k t. case search q k t of
                 None \<Rightarrow> True
               | Some rs \<Rightarrow> list_all (\<lambda>r. t \<le> similarity r) rs)"

text \<open>
  The inner loop of \<^verbatim>\<open>_search_expanded_queries\<close> over the results of one expanded query;
  the state is the additional results and the set of chunk ids seen.
\<close>

fun add_new_results ::
  "int \<Rightarrow> result list \<Rightarrow> result list \<times> string set \<Rightarrow> result list \<times> string set" where
  "add_new_results top_k [] st = st"
| "add_new_results top_k (r # rs) (additional, ids) =
     add_new_results top_k rs
       (if res_chunk_id r \<notin> ids \<and> int (length additional) < top_k
        then (additional @ [r\<lparr>from_expanded_query := True\<rparr>], insert (res_chunk_id r) ids)
        else (additional, ids))"

text \<open>
  The outer loop over the expanded queries: it stops once the budget is filled, and a search
  that raises is skipped.
\<close>

fun search_expanded_loop ::
  "vector_search \<Rightarrow> string list \<Rightarrow> int \<Rightarrow> real \<Rightarrow> result list \<times> string set \<Rightarrow> result list" where
  "search_expanded_loop search [] top_k threshold (additional, ids) = additional"
| "search_expanded_loop search (q # qs) top_k threshold (additional, ids) =
     (if top_k \<le> int (length additional) then additional
      else case search q top_k threshold of
             None \<Rightarrow> search_expanded_loop search qs top_k threshold (additional, ids)
           | Some query_results \<Rightarrow>
               search_expanded_loop search qs top_k threshold
                 (add_new_results top_k query_results (additional, ids)))"

definition search_expanded_queries ::
  "vector_search \<Rightarrow> string list \<Rightarrow> int \<Rightarrow> real \<Rightarrow> result list \<Rightarrow> result list" where
  "search_expanded_queries search queries top_k threshold existing_results =
     search_expanded_loop search queries top_k threshold
       ([], set (map res_chunk_id existing_results))"

text \<open>
  \<^verbatim>\<open>results.sort(key=lambda x: x['similarity'], reverse=True)\<close>: a stable sort by
  descending similarity.
\<close>

definition sort_by_similarity :: "result list \<Rightarrow> result list" where
  "sort_by_similarity results = sort_key (\<lambda>r. - similarity r) results"

text \<open>
  \<^verbatim>\<open>top_k or Config.TOP_K_RETRIEVAL\<close> and
  \<^verbatim>\<open>similarity_threshold or Config.SIMILARITY_THRESHOLD\<close>: the configured value stands in
  for \<^verbatim>\<open>None\<close> and for zero.
\<close>

definition effective_top_k :: "config \<Rightarrow> int option \<Rightarrow> int" where
  "effective_top_k cfg top_k =
     (case top_k of None \<Rightarrow> TOP_K_RETRIEVAL cfg
      | Some k \<Rightarrow> if k = 0 then TOP_K_RETRIEVAL cfg else k)"

definition effective_threshold :: "config \<Rightarrow> real option \<Rightarrow> real" where
  "effective_threshold cfg similarity_threshold =
     (case similarity_threshold of None \<Rightarrow> SIMILARITY_THRESHOLD cfg
      | Some t \<Rightarrow> if t = 0 then SIMILARITY_THRESHOLD cfg else t)"

definition retrieve ::
  "nlp_env \<Rightarrow> config \<Rightarrow> vector_search \<Rightarrow> string \<Rightarrow> int option \<Rightarrow> real option \<Rightarrow> result list" where
  "retrieve env cfg search query top_k similarity_threshold =
     (if query = [] then []
      else
        let k = effective_top_k cfg top_k;
            threshold = effective_threshold cfg similarity_threshold;
            pq = optimize_query_for_retrieval env query
        in case search (processed_query pq) k threshold of
             None \<Rightarrow> []
           | Some results \<Rightarrow>
               let results =
                     (if int (length results) < k \<and> expanded_queries pq \<noteq> []
                      then results @
                           search_expanded_queries search (expanded_queries pq)
                             (k - int (length results)) threshold results
                      else results);
                   results = py_slice_to (sort_by_similarity results) k
               in map (\<lambda>r. r\<lparr>query_metadata := Some (query_type pq, search_terms pq)\<rparr>) results)"

section \<open>\<^verbatim>\<open>CitationFormatter\<close>\<close>

text \<open>
  The formatter object holds the counter of numeric citations. (Its dictionary
  \<^verbatim>\<open>citations\<close> is never read or written after the constructor.)
\<close>

record formatter =
  citation_counter :: int

subsection \<open>Citations from metadata\<close>

text \<open>
  \<^verbatim>\<open>re.search(r'\b(19|20)\d{2}\b', s)\<close>: the first run of exactly the shape 19dd or 20dd
  that has no word character right before and right after it. The flag says that the
  previous character is a word character.
\<close>

definition year_here :: "string \<Rightarrow> bool" where
  "year_here s =
     (case s of
        a # b # c # d # r \<Rightarrow>
          ((a = CHR ''1'' \<and> b = CHR ''9'') \<or> (a = CHR ''2'' \<and> b = CHR ''0'')) \<and>
          is_digit c \<and> is_digit d \<and> (case r of [] \<Rightarrow> True | e # r' \<Rightarrow> \<not> is_word e)
      | _ \<Rightarrow> False)"

definition digit_value :: "char \<Rightarrow> int" where
  "digit_value c = (case map_of (zip ''0123456789'' [0, 1, 2, 3, 4, 5, 6, 7, 8, 9]) c of
                      None \<Rightarrow> 0 | Some v \<Rightarrow> v)"

definition int_of_digits :: "string \<Rightarrow> int" where
  "int_of_digits s = foldl (\<lambda>n c. 10 * n + digit_value c) 0 s"

fun search_year :: "bool \<Rightarrow> string \<Rightarrow> int option" where
  "search_year after_word [] = None"
| "search_year after_word (c # cs) =
     (if \<not> after_word \<and> year_here (c # cs) then Some (int_of_digits (take 4 (c # cs)))
      else search_year (is_word c) cs)"

definition year_of :: "pub_date option \<Rightarrow> int option" where
  "year_of date =
     (case date of
        None \<Rightarrow> None
      | Some (DateTime y) \<Rightarrow> Some y
      | Some (DateStr s) \<Rightarrow> if s = [] then None else search_year False s)"

definition create_citation_from_metadata :: "metadata \<Rightarrow> citation" where
  "create_citation_from_metadata md =
     \<lparr>cit_paper_title = get_default (paper_title md) ''Unknown Title'',
      cit_authors = get_default (paper_authors md) [],
      cit_year = year_of (paper_published_date md),
      cit_journal = paper_journal md,
      cit_doi = paper_doi md,
      cit_url = paper_url md,
      cit_arxiv_id = paper_arxiv_id md,
      cit_pubmed_id = paper_pubmed_id md,
      citation_number = None\<rparr>"

text \<open>
  \<^verbatim>\<open>create_citation_map\<close>: the dictionary from paper title to citation, as the list of its
  items in insertion order. A chunk whose title is missing, \<^verbatim>\<open>None\<close> or empty adds nothing.
\<close>

type_synonym citation_map = "(string \<times> citation) list"

fun create_citation_map_loop :: "result list \<Rightarrow> citation_map \<Rightarrow> citation_map" where
  "create_citation_map_loop [] cm = cm"
| "create_citation_map_loop (chunk # chunks) cm =
     create_citation_map_loop chunks
       (case get (paper_title (res_metadata chunk)) of
          None \<Rightarrow> cm
        | Some t \<Rightarrow>
            if t \<noteq> [] \<and> t \<notin> set (map fst cm)
            then cm @ [(t, create_citation_from_metadata (res_metadata chunk))]
            else cm)"

definition create_citation_map :: "result list \<Rightarrow> citation_map" where
  "create_citation_map chunks = create_citation_map_loop chunks []"

subsection \<open>Inline markers\<close>

text \<open>
  \<^verbatim>\<open>format_numeric\<close>: a citation without a number (or with the number 0) takes the next
  value of the counter. The result is the marker, the counter and the citation as the call
  leaves them.
\<close>

definition format_numeric :: "int \<Rightarrow> citation \<Rightarrow> string \<times> int \<times> citation" where
  "format_numeric count c =
     (case citation_number c of
        Some n \<Rightarrow>
          if n \<noteq> 0 then (''['' @ str_int n @ '']'', count, c)
          else (''['' @ str_int (count + 1) @ '']'', count + 1,
                c\<lparr>citation_number := Some (count + 1)\<rparr>)
      | None \<Rightarrow>
          (''['' @ str_int (count + 1) @ '']'', count + 1,
           c\<lparr>citation_number := Some (count + 1)\<rparr>))"

definition format_author_date :: "citation \<Rightarrow> string" where
  "format_author_date c =
     (let author_text =
            (case cit_authors c of
               None \<Rightarrow> ''Anonymous''
             | Some [] \<Rightarrow> ''Anonymous''
             | Some [a] \<Rightarrow> a
             | Some (a # b # r) \<Rightarrow> a @ '' et al.'');
          year_text =
            (case cit_year c of
               None \<Rightarrow> ''n.d.''
             | Some y \<Rightarrow> if y = 0 then ''n.d.'' else str_int y)
      in ''('' @ author_text @ '', '' @ year_text @ '')'')"

text \<open>
  The marker for a style, as the branches inside the sentence loop choose it: the
  author-date marker for \<^verbatim>\<open>author_date\<close>, the numeric marker for \<^verbatim>\<open>numeric\<close> and for
  every other style.
\<close>

definition render_marker :: "string \<Rightarrow> int \<Rightarrow> citation \<Rightarrow> string \<times> int \<times> citation" where
  "render_marker style count c =
     (if lower style = ''numeric'' then format_numeric count c
      else if lower style = ''author_date'' then (format_author_date c, count, c)
      else format_numeric count c)"

subsection \<open>Matching a sentence with a chunk\<close>

definition common_words :: "string list" where
  "common_words =
     [''the'', ''a'', ''an'', ''and'', ''or'', ''but'', ''in'', ''on'', ''at'', ''to'', ''for'',
      ''of'', ''with'', ''by'', ''is'', ''are'', ''was'', ''were'', ''be'', ''been'', ''have'',
      ''has'', ''had'', ''do'', ''does'', ''did'', ''will'', ''would'', ''could'', ''should'',
      ''may'', ''might'', ''can'', ''this'', ''that'', ''these'', ''those'']"

text \<open>The set of the words of a string that are not common words, without repetitions.\<close>

definition significant_words :: "string \<Rightarrow> string list" where
  "significant_words s = remdups (filter (\<lambda>w. w \<notin> set common_words) (split_ws (lower s)))"

text \<open>
  \<^verbatim>\<open>_sentence_cites_paper\<close>. The code divides the number of shared words by the number of
  sentence words and tests \<^verbatim>\<open>overlap_ratio > 0.3\<close> in floating point. The quotient of two
  integers is the correctly rounded quotient, and the literal 0.3 is the floating-point
  number nearest to 3/10; for fewer than \<open>10\<^sup>1\<^sup>5\<close> sentence words a quotient above 3/10 is
  rounded above that literal and a quotient of at most 3/10 is not, so the test is the
  exact comparison \<open>3 * words < 10 * overlap\<close>.
\<close>

definition sentence_cites_paper :: "string \<Rightarrow> string \<Rightarrow> bool" where
  "sentence_cites_paper sentence chunk_txt =
     (let sentence_words = significant_words sentence;
          chunk_words = significant_words chunk_txt;
          overlap = length (filter (\<lambda>w. w \<in> set chunk_words) sentence_words)
      in sentence_words \<noteq> [] \<and> chunk_words \<noteq> [] \<and> 3 * length sentence_words < 10 * overlap)"

subsection \<open>\<^verbatim>\<open>add_citations_to_text\<close>\<close>

text \<open>
  \<^verbatim>\<open>re.split(r'(?<=[.!?])\s+', s)\<close>: the text is cut at every run of whitespace that
  follows a full stop, an exclamation mark or a question mark. The accumulator is the
  current piece, reversed; \<open>skipping\<close> says that the scan is inside such a run, and
  \<open>after_end\<close> that the previous character is one of the three marks.
\<close>

fun split_sentences_from :: "string \<Rightarrow> bool \<Rightarrow> bool \<Rightarrow> string \<Rightarrow> string list" where
  "split_sentences_from acc skipping after_end [] = [rev acc]"
| "split_sentences_from acc skipping after_end (c # cs) =
     (if is_space c \<and> skipping then split_sentences_from acc True False cs
      else if is_space c \<and> after_end then rev acc # split_sentences_from [] True False cs
      else split_sentences_from (c # acc) False (c \<in> set ''.!?'') cs)"

definition split_sentences :: "string \<Rightarrow> string list" where
  "split_sentences s = split_sentences_from [] False False s"

text \<open>
  The state of the sentence loop: the formatter's counter, the citation map (a citation in
  it gets its number when \<^verbatim>\<open>format_numeric\<close> assigns one) and the set \<^verbatim>\<open>cited_papers\<close>.
\<close>

record attribution =
  counter :: int
  cmap :: citation_map
  cited :: "string set"

definition set_citation :: "string \<Rightarrow> citation \<Rightarrow> citation_map \<Rightarrow> citation_map" where
  "set_citation t c cm = map (\<lambda>(k, v). if k = t then (k, c) else (k, v)) cm"

text \<open>
  The loop over the chunks for one sentence. It ends at the first chunk that has a
  non-empty title, matches the sentence, and whose paper is not cited yet: the marker of
  that paper is appended and the paper is recorded as cited. Next to the sentence the
  result names the paper whose marker was appended, if any; this component is not in the
  code and only serves to state properties. \<^verbatim>\<open>citation_map[paper_title]\<close> raises
  \<^verbatim>\<open>KeyError\<close> for a title that is not in the map.
\<close>

fun cite_sentence ::
  "string \<Rightarrow> result list \<Rightarrow> string \<Rightarrow> attribution \<Rightarrow>
     py_error + (string \<times> string option \<times> attribution)" where
  "cite_sentence style [] sentence st = Inr (sentence, None, st)"
| "cite_sentence style (chunk # chunks) sentence st =
     (case get (paper_title (res_metadata chunk)) of
        None \<Rightarrow> cite_sentence style chunks sentence st
      | Some t \<Rightarrow>
          if t \<noteq> [] \<and> sentence_cites_paper sentence (res_text chunk) then
            (if t \<notin> cited st then
               (case map_of (cmap st) t of
                  None \<Rightarrow> Inl KeyError
                | Some c \<Rightarrow>
                    (case render_marker style (counter st) c of
                       (marker, n, c') \<Rightarrow>
                         Inr (sentence @ '' '' @ marker, Some t,
                              \<lparr>counter = n, cmap = set_citation t c' (cmap st),
                               cited = insert t (cited st)\<rparr>)))
             else cite_sentence style chunks sentence st)
          else cite_sentence style chunks sentence st)"

text \<open>The loop over the sentences; the result lists each sentence as it was appended to
  \<^verbatim>\<open>cited_text\<close>, with the paper cited in it.\<close>

fun cite_sentences ::
  "string \<Rightarrow> result list \<Rightarrow> string list \<Rightarrow> attribution \<Rightarrow>
     py_error + ((string \<times> string option) list \<times> attribution)" where
  "cite_sentences style chunks [] st = Inr ([], st)"
| "cite_sentences style chunks (sentence # sentences) st =
     (case cite_sentence style chunks sentence st of
        Inl e \<Rightarrow> Inl e
      | Inr (sentence', mark, st') \<Rightarrow>
          (case cite_sentences style chunks sentences st' of
             Inl e \<Rightarrow> Inl e
           | Inr (marked, st'') \<Rightarrow> Inr ((sentence', mark) # marked, st'')))"

text \<open>The loop that numbers the citations of the map for the numeric style.\<close>

fun number_citations :: "int \<Rightarrow> citation_map \<Rightarrow> int \<times> citation_map" where
  "number_citations n [] = (n, [])"
| "number_citations n ((t, c) # cm) =
     (case number_citations (n + 1) cm of
        (m, cm') \<Rightarrow> (m, (t, c\<lparr>citation_number := Some (n + 1)\<rparr>) # cm'))"

text \<open>
  The part of \<^verbatim>\<open>add_citations_to_text\<close> for a non-empty chunk list, up to the end of the
  sentence loop.
\<close>

definition attribute ::
  "formatter \<Rightarrow> string \<Rightarrow> result list \<Rightarrow> string \<Rightarrow>
     py_error + ((string \<times> string option) list \<times> attribution)" where
  "attribute fm txt chunks style =
     (let cm = create_citation_map chunks;
          start = (if lower style = ''numeric'' then number_citations 0 cm
                   else (citation_counter fm, cm))
      in cite_sentences style chunks (split_sentences txt)
           \<lparr>counter = fst start, cmap = snd start, cited = {}\<rparr>)"

text \<open>
  \<^verbatim>\<open>add_citations_to_text\<close>: the cited text, the citation map, and the formatter as the
  call leaves it.
\<close>

definition add_citations_to_text ::
  "formatter \<Rightarrow> string \<Rightarrow> result list \<Rightarrow> string \<Rightarrow>
     py_error + (string \<times> citation_map \<times> formatter)" where
  "add_citations_to_text fm txt chunks style =
     (if chunks = [] then Inr (txt, [], fm)
      else case attribute fm txt chunks style of
             Inl e \<Rightarrow> Inl e
           | Inr (marked, st) \<Rightarrow>
               Inr (join '' '' (map fst marked), cmap st, fm\<lparr>citation_counter := counter st\<rparr>))"

text \<open>Two successive calls on the same formatter object with the same arguments.\<close>

definition add_citations_twice ::
  "formatter \<Rightarrow> string \<Rightarrow> result list \<Rightarrow> string \<Rightarrow>
     py_error + ((string \<times> citation_map) \<times> (string \<times> citation_map))" where
  "add_citations_twice fm txt chunks style =
     (case add_citations_to_text fm txt chunks style of
        Inl e \<Rightarrow> Inl e
      | Inr (text1, cm1, fm1) \<Rightarrow>
          (case add_citations_to_text fm1 txt chunks style of
             Inl e \<Rightarrow> Inl e
           | Inr (text2, cm2, fm2) \<Rightarrow> Inr ((text1, cm1), (text2, cm2))))"

subsection \<open>The attribution rule\<close>

text \<open>
  A chunk qualifies for a sentence when it has a non-empty title and matches the sentence.
  The rule: a sentence is marked with the paper of the first chunk, in the order of the
  chunk list, that qualifies for it and whose paper is not cited yet.
\<close>

definition chunk_title :: "result \<Rightarrow> string" where
  "chunk_title chunk = (case get (paper_title (res_metadata chunk)) of None \<Rightarrow> [] | Some t \<Rightarrow> t)"

definition qualifies :: "string \<Rightarrow> result \<Rightarrow> bool" where
  "qualifies sentence chunk =
     (chunk_title chunk \<noteq> [] \<and> sentence_cites_paper sentence (res_text chunk))"

definition first_uncited :: "result list \<Rightarrow> string set \<Rightarrow> string \<Rightarrow> string option" where
  "first_uncited chunks seen sentence =
     map_option chunk_title
       (find (\<lambda>chunk. qualifies sentence chunk \<and> chunk_title chunk \<notin> seen) chunks)"

fun expected_marks :: "result list \<Rightarrow> string set \<Rightarrow> string list \<Rightarrow> string option list" where
  "expected_marks chunks seen [] = []"
| "expected_marks chunks seen (sentence # sentences) =
     first_uncited chunks seen sentence #
     expected_marks chunks (seen \<union> set_option (first_uncited chunks seen sentence)) sentences"

text \<open>
  An entry of the sentence loop's result agrees with its sentence: unmarked, it is the
  sentence itself; marked, it is the sentence, a space and a marker.
\<close>

definition marked_as :: "string \<Rightarrow> string \<times> string option \<Rightarrow> bool" where
  "marked_as sentence entry =
     (case snd entry of
        None \<Rightarrow> fst entry = sentence
      | Some t \<Rightarrow> (\<exists>marker. fst entry = sentence @ '' '' @ marker))"

text \<open>The papers cited, in the order of the sentences.\<close>

definition cited_titles :: "string option list \<Rightarrow> string list" where
  "cited_titles marks = concat (map (\<lambda>m. case m of None \<Rightarrow> [] | Some t \<Rightarrow> [t]) marks)"

text \<open>The texts and the citation numbers of two successive calls.\<close>

definition numbers_of :: "citation_map \<Rightarrow> (string \<times> int option) list" where
  "numbers_of cm = map (\<lambda>(t, c). (t, citation_number c)) cm"

definition texts_and_numbers ::
  "py_error + ((string \<times> citation_map) \<times> (string \<times> citation_map)) \<Rightarrow>
     py_error + ((string \<times> (string \<times> int option) list) \<times> (string \<times> (string \<times> int option) list))" where
  "texts_and_numbers r =
     (case r of
        Inl e \<Rightarrow> Inl e
      | Inr ((text1, cm1), (text2, cm2)) \<Rightarrow>
          Inr ((text1, numbers_of cm1), (text2, numbers_of cm2)))"

section \<open>Example inputs\<close>

definition no_metadata :: metadata where
  "no_metadata =
     \<lparr>paper_title = Missing, paper_authors = Missing, paper_url = None, paper_published_date = None,
      paper_journal = None, paper_doi = None, paper_arxiv_id = None, paper_pubmed_id = None,
      chunk_type = None\<rparr>"

definition titled :: "string \<Rightarrow> metadata" where
  "titled t = no_metadata\<lparr>paper_title := Val t\<rparr>"

text \<open>Three results from two papers, with similarities 0.9, 0.85 and 0.4.\<close>

definition stored_results :: "result list" where
  "stored_results =
    [\<lparr>res_chunk_id = ''a_0_10'', res_text = ''x'', res_metadata = titled ''P1'',
      similarity = 9 / 10, from_expanded_query = False, query_metadata = None\<rparr>,
     \<lparr>res_chunk_id = ''a_10_20'', res_text = ''y'', res_metadata = titled ''P1'',
      similarity = 85 / 100, from_expanded_query = False, query_metadata = None\<rparr>,
     \<lparr>res_chunk_id = ''b_0_10'', res_text = ''z'', res_metadata = titled ''P2'',
      similarity = 4 / 10, from_expanded_query = False, query_metadata = None\<rparr>]"

text \<open>
  The paper of the repository's chunker tests, with the content sentence once instead of ten
  times; its preprocessed text has 120 characters. The tests chunk with size 100 and
  overlap 20.
\<close>

definition test_paper :: paper where
  "test_paper =
     \<lparr>title = ''Test Paper'', authors = [''Author 1''], abstract = ''Test abstract'',
      content = Some ''This is a longer content that should be chunked into multiple pieces.'',
      url = None, published_date = None, journal = None, doi = None,
      arxiv_id = None, pubmed_id = None\<rparr>"

definition test_chunker :: chunker where
  "test_chunker = \<lparr>chunk_size = 100, chunk_overlap = 20\<rparr>"

text \<open>
  Two different papers without arXiv or PubMed identifier; the preprocessed text of each has
  20 characters (\<^verbatim>\<open>Title: A Abstract: B\<close> and \<^verbatim>\<open>Title: C Abstract: D\<close>).
\<close>

definition paper_a :: paper where
  "paper_a =
     \<lparr>title = ''A'', authors = [], abstract = ''B'', content = None, url = None,
      published_date = None, journal = None, doi = None, arxiv_id = None, pubmed_id = None\<rparr>"

definition paper_b :: paper where
  "paper_b =
     \<lparr>title = ''C'', authors = [], abstract = ''D'', content = None, url = None,
      published_date = None, journal = None, doi = None, arxiv_id = None, pubmed_id = None\<rparr>"

text \<open>The offsets of a list of chunks.\<close>

definition ranges :: "chunk list \<Rightarrow> (int \<times> int) list" where
  "ranges chunks = map (\<lambda>c. (start_char c, end_char c)) chunks"

text \<open>Degenerate and unusual chunker settings.\<close>

definition equal_overlap_chunker :: chunker where
  "equal_overlap_chunker = \<lparr>chunk_size = 10, chunk_overlap = 10\<rparr>"

definition larger_overlap_chunker :: chunker where
  "larger_overlap_chunker = \<lparr>chunk_size = 10, chunk_overlap = 12\<rparr>"

definition clamped_overlap_chunker :: chunker where
  "clamped_overlap_chunker = \<lparr>chunk_size = 10, chunk_overlap = 9\<rparr>"

definition negative_overlap_chunker :: chunker where
  "negative_overlap_chunker = \<lparr>chunk_size = 10, chunk_overlap = - 5\<rparr>"

definition single_char_chunker :: chunker where
  "single_char_chunker = \<lparr>chunk_size = 1, chunk_overlap = 0\<rparr>"

text \<open>A text of 250 characters without whitespace.\<close>

definition text_250 :: string where
  "text_250 = replicate 250 (CHR ''a'')"

text \<open>
  Two language pipelines: none installed, and one that finds the noun chunks \<^verbatim>\<open>BERT\<close> and
  \<^verbatim>\<open>bert\<close> in every text. Sets are listed in the order of first occurrence.
\<close>

definition no_nlp :: nlp_env where
  "no_nlp = \<lparr>nlp = None, set_order = (\<lambda>xs. xs)\<rparr>"

definition bert_nlp :: nlp_env where
  "bert_nlp =
     \<lparr>nlp = Some (\<lambda>s. \<lparr>noun_chunks = [''BERT'', ''bert''], ents = []\<rparr>), set_order = (\<lambda>xs. xs)\<rparr>"

text \<open>
  A configuration with a negative default threshold, and a vector store that holds one chunk
  of similarity -0.2 and returns it whenever the threshold allows.
\<close>

definition negative_config :: config where
  "negative_config = \<lparr>TOP_K_RETRIEVAL = 5, SIMILARITY_THRESHOLD = - 1 / 2\<rparr>"

definition low_result :: result where
  "low_result =
     \<lparr>res_chunk_id = ''a_0_10'', res_text = ''x'', res_metadata = titled ''P1'',
      similarity = - 1 / 5, from_expanded_query = False, query_metadata = None\<rparr>"

definition one_chunk_store :: vector_search where
  "one_chunk_store q k t = Some (filter (\<lambda>r. t \<le> similarity r) [low_result])"

text \<open>A vector store that holds the three results above.\<close>

definition example_store :: vector_search where
  "example_store q k t =
     Some (py_slice_to (filter (\<lambda>r. t \<le> similarity r) stored_results) k)"

text \<open>
  Two chunks with the same text from the papers \<^verbatim>\<open>A\<close> and \<^verbatim>\<open>B\<close>, an answer of two
  sentences that both match both chunks, and a fresh formatter.
\<close>

definition two_chunks :: "result list" where
  "two_chunks =
    [\<lparr>res_chunk_id = ''a_0_10'', res_text = ''alpha beta'', res_metadata = titled ''A'',
      similarity = 9 / 10, from_expanded_query = False, query_metadata = None\<rparr>,
     \<lparr>res_chunk_id = ''b_0_10'', res_text = ''alpha beta'', res_metadata = titled ''B'',
      similarity = 8 / 10, from_expanded_query = False, query_metadata = None\<rparr>]"

definition two_sentences :: string where
  "two_sentences = ''alpha beta. alpha beta.''"

definition fresh_formatter :: formatter where
  "fresh_formatter = \<lparr>citation_counter = 0\<rparr>"

section \<open>Properties of the text processor\<close>

lemma is_space_sp: "is_space (CHR 0x20)"
  by (simp add: is_space_def)

lemma spaced_collapse_from: "spaced b (collapse_from b s)"
  by (induction s arbitrary: b) (simp_all add: is_space_sp)

lemma spaced_weaken: "spaced b s \<Longrightarrow> spaced False s"
  by (cases s) (auto split: if_splits)

lemma collapse_from_id: "spaced b s \<Longrightarrow> collapse_from b s = s"
  by (induction s arbitrary: b) (auto split: if_splits)

lemma spaced_append_right: "spaced b (xs @ ys) \<Longrightarrow> spaced False ys"
proof (induction xs arbitrary: b)
  case Nil
  then show ?case using spaced_weaken by simp
next
  case (Cons x xs)
  then show ?case by (auto split: if_splits)
qed

lemma spaced_append_left: "spaced b (xs @ ys) \<Longrightarrow> spaced b xs"
  by (induction xs arbitrary: b) (auto split: if_splits)

lemma spaced_drop: "spaced b s \<Longrightarrow> spaced False (drop n s)"
  using spaced_append_right[of b "take n s" "drop n s"] by simp

lemma spaced_start: "spaced False s \<Longrightarrow> s = [] \<or> \<not> is_space (hd s) \<Longrightarrow> spaced True s"
  by (cases s) (auto split: if_splits)

lemma spaced_only_space: "spaced b s \<Longrightarrow> c \<in> set s \<Longrightarrow> is_space c \<Longrightarrow> c = CHR 0x20"
  by (induction s arbitrary: b) (auto split: if_splits)

lemma spaced_pair: "spaced b (x # y # r) \<Longrightarrow> \<not> (is_space x \<and> is_space y)"
  by (auto split: if_splits)

lemma rstrip_split: "s = rev (dropWhile P (rev s)) @ rev (takeWhile P (rev s))"
proof -
  have "rev (dropWhile P (rev s)) @ rev (takeWhile P (rev s)) =
        rev (takeWhile P (rev s) @ dropWhile P (rev s))"
    by (simp only: rev_append)
  also have "\<dots> = rev (rev s)" by (simp only: takeWhile_dropWhile_id)
  finally show ?thesis by simp
qed

lemma rstrip_last:
  assumes "rev (dropWhile P (rev s)) \<noteq> []"
  shows "\<not> P (last (rev (dropWhile P (rev s))))"
proof -
  have ne: "dropWhile P (rev s) \<noteq> []" using assms by simp
  then have "\<not> P (hd (dropWhile P (rev s)))" by (rule hd_dropWhile)
  then show ?thesis using ne by (simp add: last_rev)
qed

lemma tidy_strip:
  assumes "spaced False s"
  shows "tidy (strip s)"
proof -
  let ?t = "dropWhile is_space s"
  let ?u = "rev (dropWhile is_space (rev ?t))"
  have "s = takeWhile is_space s @ ?t" by simp
  then have t0: "spaced False ?t" using spaced_append_right[of False "takeWhile is_space s" ?t] assms by simp
  have "?t = [] \<or> \<not> is_space (hd ?t)" using hd_dropWhile[of is_space s] by blast
  then have t1: "spaced True ?t" using spaced_start[OF t0] by simp
  have "?t = ?u @ rev (takeWhile is_space (rev ?t))" by (rule rstrip_split)
  then have u1: "spaced True ?u" using spaced_append_left[of True ?u "rev (takeWhile is_space (rev ?t))"] t1 by simp
  have "?u = [] \<or> \<not> is_space (last ?u)" using rstrip_last[of is_space ?t] by blast
  then show ?thesis using u1 by (simp add: tidy_def strip_def)
qed

lemma tidy_Nil: "tidy []"
  by (simp add: tidy_def)

lemma strip_id:
  assumes "tidy s"
  shows "strip s = s"
proof (cases s)
  case Nil
  then show ?thesis by (simp add: strip_def)
next
  case (Cons c cs)
  have "\<not> is_space c" using assms Cons by (auto simp add: tidy_def split: if_splits)
  then have a: "dropWhile is_space s = s" using Cons by simp
  have "\<not> is_space (last s)" using assms Cons by (simp add: tidy_def)
  moreover have "hd (rev s) = last s" using Cons hd_rev[of s] by simp
  ultimately have "\<not> is_space (hd (rev s))" by simp
  then have "dropWhile is_space (rev s) = rev s" using Cons by (cases "rev s") simp_all
  then show ?thesis using a by (simp add: strip_def)
qed

lemma strip_empty_iff: "strip s = [] \<longleftrightarrow> (\<forall>c \<in> set s. is_space c)"
proof
  assume e: "strip s = []"
  then have "dropWhile is_space (rev (dropWhile is_space s)) = []" by (simp add: strip_def)
  then have "\<forall>c \<in> set (rev (dropWhile is_space s)). is_space c"
    using dropWhile_eq_Nil_conv[of is_space "rev (dropWhile is_space s)"] by blast
  then have d: "\<forall>c \<in> set (dropWhile is_space s). is_space c" by simp
  have "dropWhile is_space s = []"
  proof (rule ccontr)
    assume n: "dropWhile is_space s \<noteq> []"
    then have "\<not> is_space (hd (dropWhile is_space s))" by (rule hd_dropWhile)
    moreover have "hd (dropWhile is_space s) \<in> set (dropWhile is_space s)" using n by simp
    ultimately show False using d by blast
  qed
  then show "\<forall>c \<in> set s. is_space c"
    using dropWhile_eq_Nil_conv[of is_space s] by blast
next
  assume "\<forall>c \<in> set s. is_space c"
  then have d: "dropWhile is_space s = []"
    using dropWhile_eq_Nil_conv[of is_space s] by blast
  show "strip s = []" unfolding strip_def d by simp
qed

lemma set_collapse_from: "set (collapse_from b s) \<subseteq> insert (CHR 0x20) (set s)"
  by (induction s arbitrary: b) auto

lemma set_strip: "set (strip s) \<subseteq> set s"
proof -
  have "set (strip s) \<subseteq> set (dropWhile is_space s)"
    using set_dropWhileD[of _ is_space "rev (dropWhile is_space s)"] by (auto simp add: strip_def)
  then show ?thesis using set_dropWhileD[of _ is_space s] by blast
qed

lemma set_re_sub_del: "set (re_sub_del m s) \<subseteq> set s"
proof (induction m s rule: re_sub_del.induct)
  case (1 m)
  then show ?case by simp
next
  case (2 m c cs)
  show ?case
  proof (cases "m (c # cs)")
    case None
    then show ?thesis using 2(1) by auto
  next
    case (Some n)
    then have "set (re_sub_del m (drop (n - 1) cs)) \<subseteq> set (drop (n - 1) cs)" using 2(2) by simp
    then show ?thesis using Some set_drop_subset[of "n - 1" cs] by auto
  qed
qed

lemma keep_space: "keep_char (CHR 0x20)"
  by (simp add: keep_char_def is_space_def)

lemma clean_text_keep: "c \<in> set (clean_text s) \<Longrightarrow> keep_char c"
proof -
  assume c: "c \<in> set (clean_text s)"
  let ?m = "map (\<lambda>c. if keep_char c then c else CHR 0x20) (collapse_ws s)"
  have m: "\<forall>x \<in> set ?m. keep_char x" using keep_space by auto
  from c have "s \<noteq> []" by (auto simp add: clean_text_def)
  then have "c \<in> set (strip (collapse_ws ?m))" using c by (simp add: clean_text_def)
  then have "c \<in> set (collapse_ws ?m)" using set_strip by blast
  then have "c \<in> insert (CHR 0x20) (set ?m)"
    using set_collapse_from[of False ?m] by (auto simp add: collapse_ws_def)
  then show "keep_char c" using m keep_space by blast
qed

lemma clean_text_tidy: "tidy (clean_text s)"
  using tidy_strip[OF spaced_collapse_from[of False]] tidy_Nil
  by (simp add: clean_text_def collapse_ws_def)

lemma clean_text_id:
  assumes t: "tidy s" and k: "\<forall>c \<in> set s. keep_char c"
  shows "clean_text s = s"
proof (cases "s = []")
  case True
  then show ?thesis by (simp add: clean_text_def)
next
  case False
  have sp: "spaced False s" using t spaced_weaken by (auto simp add: tidy_def)
  have c: "collapse_ws s = s" using collapse_from_id[OF sp] by (simp add: collapse_ws_def)
  have m: "map (\<lambda>c. if keep_char c then c else CHR 0x20) s = s" using k by (simp add: map_idI)
  show ?thesis using False c m strip_id[OF t] by (simp add: clean_text_def)
qed

lemma remove_citations_tidy: "tidy (remove_citations s)"
  using tidy_strip[OF spaced_collapse_from[of False]] tidy_Nil
  by (simp add: remove_citations_def collapse_ws_def)

lemma remove_citations_keep:
  assumes k: "\<forall>c \<in> set s. keep_char c" and c: "c \<in> set (remove_citations s)"
  shows "keep_char c"
proof -
  let ?d = "re_sub_del match_et_al (re_sub_del match_paren_cite (re_sub_del match_bracket_cite s))"
  from c have "s \<noteq> []" by (auto simp add: remove_citations_def)
  then have "c \<in> set (strip (collapse_ws ?d))" using c by (simp add: remove_citations_def)
  then have "c \<in> set (collapse_ws ?d)" using set_strip by blast
  then have "c \<in> insert (CHR 0x20) (set ?d)"
    using set_collapse_from[of False ?d] by (auto simp add: collapse_ws_def)
  moreover have "set ?d \<subseteq> set s"
    using set_re_sub_del[of match_et_al] set_re_sub_del[of match_paren_cite]
      set_re_sub_del[of match_bracket_cite s] by blast
  ultimately show ?thesis using k keep_space by blast
qed

lemma preprocess_tidy: "tidy (preprocess_paper_content t a c)"
  by (simp add: preprocess_paper_content_def Let_def remove_citations_tidy)

lemma preprocess_keep: "x \<in> set (preprocess_paper_content t a c) \<Longrightarrow> keep_char x"
  unfolding preprocess_paper_content_def Let_def
  using remove_citations_keep clean_text_keep by blast

lemma tidy_no_lf: "tidy s \<Longrightarrow> CHR 0x0A \<notin> set s"
proof
  assume t: "tidy s" and m: "CHR 0x0A \<in> set s"
  have "is_space (CHR 0x0A)" by (simp add: is_space_def)
  then have "CHR 0x0A = CHR 0x20" using spaced_only_space[of True s "CHR 0x0A"] t m by (simp add: tidy_def)
  then show False by simp
qed

lemma match_para_sep_none: "CHR 0x0A \<notin> set s \<Longrightarrow> match_para_sep s = None"
proof (cases s)
  case Nil
  then show "match_para_sep s = None" by (simp add: match_para_sep_def)
next
  case (Cons c r)
  assume n: "CHR 0x0A \<notin> set s"
  then have "take 1 r \<noteq> [CHR 0x0A]" using Cons by (cases r) auto
  then show "match_para_sep s = None" using n Cons by (auto simp add: match_para_sep_def)
qed

lemma re_split_acc_none:
  "CHR 0x0A \<notin> set s \<Longrightarrow> re_split_acc match_para_sep acc s = [rev acc @ s]"
proof (induction s arbitrary: acc)
  case Nil
  then show ?case by simp
next
  case (Cons c cs)
  then have "match_para_sep (c # cs) = None" using match_para_sep_none by blast
  then show ?case using Cons by simp
qed

lemma extract_paragraphs_tidy:
  assumes t: "tidy s" and k: "\<forall>c \<in> set s. keep_char c"
  shows "extract_paragraphs s = (if 50 < length s then [s] else [])"
proof -
  have "re_split match_para_sep s = [s]"
    using re_split_acc_none[OF tidy_no_lf[OF t], of "[]"] by (simp add: re_split_def)
  then show ?thesis using clean_text_id[OF t k] by (auto simp add: extract_paragraphs_def)
qed

section \<open>Properties of the chunker\<close>

lemma preprocess_paper_tidy: "tidy (preprocess_paper p)"
  by (simp add: preprocess_paper_def preprocess_tidy)

lemma preprocess_paper_keep: "\<forall>c \<in> set (preprocess_paper p). keep_char c"
  using preprocess_keep by (simp add: preprocess_paper_def)

lemma extract_paragraphs_preprocess:
  "extract_paragraphs (preprocess_paper p) =
     (if 50 < length (preprocess_paper p) then [preprocess_paper p] else [])"
  using extract_paragraphs_tidy[OF preprocess_paper_tidy preprocess_paper_keep] .

lemma chunk_paper_short:
  "length (preprocess_paper p) \<le> 50 \<Longrightarrow> chunk_paper ck p = simple_chunk ck (preprocess_paper p) p"
  by (simp add: chunk_paper_def Let_def extract_paragraphs_preprocess)

lemma chunk_paper_long:
  assumes long: "50 < length (preprocess_paper p)"
  shows "chunk_paper ck p =
     Inr [create_chunk (preprocess_paper p) p
            (if int (length (preprocess_paper p)) + 2 \<le> chunk_size ck then 0
             else int (length (preprocess_paper p)))
            ((if int (length (preprocess_paper p)) + 2 \<le> chunk_size ck then 0
              else int (length (preprocess_paper p))) + int (length (preprocess_paper p)))]"
proof -
  let ?t = "preprocess_paper p"
  have ne: "strip ?t \<noteq> []" using strip_id[OF preprocess_paper_tidy, of p] long by auto
  have e: "strip [] = ([] :: string)" by (simp add: strip_def)
  show ?thesis
    using long ne e by (simp add: chunk_paper_def Let_def extract_paragraphs_preprocess flush_def)
qed

text \<open>
  C10. A paper whose preprocessed text has more than 50 characters is chunked into exactly
  one chunk, whose text is the whole preprocessed text, whatever the chunk size and overlap:
  the preprocessed text holds no line break, so it is its own single paragraph.
\<close>

theorem chunk_paper_single_chunk:
  "50 < length (preprocess_paper p) \<Longrightarrow>
     extract_paragraphs (preprocess_paper p) = [preprocess_paper p] \<and>
     (\<exists>c. chunk_paper ck p = Inr [c] \<and> chunk_text c = preprocess_paper p)"
  using chunk_paper_long[of p ck] extract_paragraphs_preprocess[of p]
  by (simp add: create_chunk_def Let_def)

lemma test_paper_text:
  "preprocess_paper test_paper =
     ''Title: Test Paper Abstract: Test abstract Content: This is a longer content that should be chunked into multiple pieces.''"
  by code_simp

theorem chunk_paper_single_chunk_witness:
  "50 < length (preprocess_paper test_paper) \<and>
   extract_paragraphs (preprocess_paper test_paper) = [preprocess_paper test_paper] \<and>
   (\<exists>c. chunk_paper test_chunker test_paper = Inr [c] \<and>
        chunk_text c = preprocess_paper test_paper)"
proof -
  have h: "50 < length (preprocess_paper test_paper)" by (simp add: test_paper_text)
  show ?thesis using chunk_paper_single_chunk[OF h, of test_chunker] h by simp
qed

subsection \<open>The fallback windows\<close>

lemma range_up_mem:
  "0 < step \<Longrightarrow> x \<in> set (range_up a n step) \<longleftrightarrow> a \<le> x \<and> x < n \<and> step dvd (x - a)"
proof (induction a n step rule: range_up.induct)
  case (1 i stop step)
  show ?case
  proof (cases "i < stop")
    case False
    then show ?thesis by (subst range_up.simps) simp
  next
    case True
    have ih: "x \<in> set (range_up (i + step) stop step) \<longleftrightarrow>
              i + step \<le> x \<and> x < stop \<and> step dvd (x - (i + step))"
      using 1(1)[OF conjI[OF 1(2) True] 1(2)] .
    have d: "step dvd (x - (i + step)) \<longleftrightarrow> step dvd (x - i)"
    proof -
      have e: "x - (i + step) = x - i - step" by simp
      show ?thesis unfolding e using dvd_diff_left_iff[of step step "x - i"] by simp
    qed
    have g: "step dvd (x - i) \<Longrightarrow> i < x \<Longrightarrow> i + step \<le> x"
    proof -
      assume a: "step dvd (x - i)" and b: "i < x"
      then have "step \<le> x - i" using zdvd_imp_le[of step "x - i"] by simp
      then show ?thesis by simp
    qed
    have "x \<in> set (range_up i stop step) \<longleftrightarrow> x = i \<or> x \<in> set (range_up (i + step) stop step)"
      using True 1(2) by (subst range_up.simps) simp
    then have m: "x \<in> set (range_up i stop step) \<longleftrightarrow>
        x = i \<or> (i + step \<le> x \<and> x < stop \<and> step dvd (x - i))"
      using ih d by simp
    show ?thesis
    proof (cases "x = i")
      case True
      then show ?thesis using m \<open>i < stop\<close> by simp
    next
      case False
      have "i + step \<le> x \<longleftrightarrow> i \<le> x" if "step dvd (x - i)"
      proof
        assume "i + step \<le> x"
        then show "i \<le> x" using 1(2) by linarith
      next
        assume "i \<le> x"
        then have "i < x" using False by linarith
        then show "i + step \<le> x" using g that by blast
      qed
      then show ?thesis using m False by blast
    qed
  qed
qed

lemma min_window: "(a::nat) \<le> n \<Longrightarrow> min (a + k) n - min a n = min k (n - a)"
  by (cases "a + k \<le> n") simp_all

lemma take_min_length: "take (min k (length ys)) ys = take k ys"
  by (cases "k \<le> length ys") simp_all

lemma py_slice_window:
  assumes "0 \<le> j" and "0 \<le> k"
  shows "py_slice xs j (j + k) = take (nat k) (drop (nat j) xs)"
proof -
  have a: "py_bound (length xs) j = min (nat j) (length xs)" using assms by (simp add: py_bound_def)
  have b: "py_bound (length xs) (j + k) = min (nat j + nat k) (length xs)"
    using assms by (simp add: py_bound_def nat_add_distrib)
  have u: "py_slice xs j (j + k) =
      take (min (nat j + nat k) (length xs) - min (nat j) (length xs))
        (drop (min (nat j) (length xs)) xs)"
    by (simp only: py_slice_def Let_def a b)
  show ?thesis
  proof (cases "nat j \<le> length xs")
    case True
    have m: "min (nat j) (length xs) = nat j" using True by simp
    have "min (nat j + nat k) (length xs) - min (nat j) (length xs) =
          min (nat k) (length (drop (nat j) xs))"
      using min_window[OF True, of "nat k"] by simp
    then have "py_slice xs j (j + k) =
        take (min (nat k) (length (drop (nat j) xs))) (drop (nat j) xs)"
      using u m by (simp only:)
    then show ?thesis by (simp only: take_min_length)
  next
    case False
    then have "drop (min (nat j) (length xs)) xs = []" "drop (nat j) xs = []" by simp_all
    then show ?thesis using u by (simp only: take_Nil)
  qed
qed

lemma two_prefix: "2 \<le> k \<Longrightarrow> set (take (Suc (Suc 0)) d) \<subseteq> set (take k d)"
  using set_take_subset_set_take[of "Suc (Suc 0)" k d] by simp

lemma tidy_last_char:
  assumes t: "tidy s" and j: "j < length s" and d: "drop j s = [x]"
  shows "\<not> is_space x"
proof -
  have "last (drop j s) = last s" using j by (rule last_drop)
  then have "last s = x" using d by simp
  moreover have "s \<noteq> []" using j by auto
  ultimately show ?thesis using t by (simp add: tidy_def)
qed

lemma spaced_two:
  assumes s: "spaced False (x # y # r)"
  shows "\<exists>c \<in> set (take (Suc (Suc 0)) (x # y # r)). \<not> is_space c"
proof (cases "is_space x")
  case True
  then have "\<not> is_space y" using spaced_pair[OF s] by blast
  then show ?thesis by simp
next
  case False
  then show ?thesis by simp
qed

lemma window_not_blank:
  assumes t: "tidy s" and k: "2 \<le> k" and j: "j < length s"
  shows "strip (take k (drop j s)) \<noteq> []"
proof -
  let ?d = "drop j s"
  have "spaced True s" using t unfolding tidy_def by (rule conjunct1)
  then have sp: "spaced False ?d" by (rule spaced_drop)
  have ne: "?d \<noteq> []" using j by simp
  have "\<exists>c \<in> set (take (Suc (Suc 0)) ?d). \<not> is_space c"
  proof (cases ?d)
    case Nil
    then show ?thesis using ne by simp
  next
    case c1: (Cons x r)
    show ?thesis
    proof (cases r)
      case Nil
      then have "drop j s = [x]" using c1 by (simp only:)
      then have "\<not> is_space x" by (rule tidy_last_char[OF t j])
      then show ?thesis unfolding c1 by simp
    next
      case c2: (Cons y r')
      have "spaced False (x # y # r')" using sp unfolding c1 c2 .
      then show ?thesis unfolding c1 c2 by (rule spaced_two)
    qed
  qed
  then have "\<exists>c \<in> set (take k ?d). \<not> is_space c" using two_prefix[OF k, of ?d] by blast
  then show ?thesis using strip_empty_iff[of "take k ?d"] by blast
qed

lemma simple_window_tidy:
  assumes t: "tidy s" and k: "2 \<le> chunk_size ck" and j0: "0 \<le> j" and j: "j < int (length s)"
  shows "simple_window ck s p j =
     [create_chunk (take (nat (chunk_size ck)) (drop (nat j) s)) p j
        (j + min (chunk_size ck) (int (length s) - j))]"
proof -
  have sl: "py_slice s j (j + chunk_size ck) = take (nat (chunk_size ck)) (drop (nat j) s)"
    using py_slice_window[of j "chunk_size ck" s] j0 k by simp
  have nb: "strip (take (nat (chunk_size ck)) (drop (nat j) s)) \<noteq> []"
    using window_not_blank[OF t, of "nat (chunk_size ck)" "nat j"] k j j0 by simp
  have l: "int (length (take (nat (chunk_size ck)) (drop (nat j) s))) =
           min (chunk_size ck) (int (length s) - j)"
    using k j j0 by simp
  show ?thesis using sl nb l by (simp add: simple_window_def Let_def)
qed

lemma create_chunk_offsets:
  "start_char (create_chunk s p a b) = a" "end_char (create_chunk s p a b) = b"
  "chunk_text (create_chunk s p a b) = s"
  by (simp_all add: create_chunk_def Let_def)

lemma simple_chunk_up:
  "chunk_overlap ck < chunk_size ck \<Longrightarrow>
   simple_chunk ck s p =
     Inr (concat (map (simple_window ck s p)
            (range_up 0 (int (length s)) (chunk_size ck - chunk_overlap ck))))"
  by (simp add: simple_chunk_def py_range_def)

lemma simple_chunk_zero_step:
  "chunk_overlap ck = chunk_size ck \<Longrightarrow> simple_chunk ck s p = Inl ValueError"
  by (simp add: simple_chunk_def py_range_def)

lemma simple_chunk_down:
  "chunk_size ck < chunk_overlap ck \<Longrightarrow> simple_chunk ck s p = Inr []"
proof -
  assume a: "chunk_size ck < chunk_overlap ck"
  have "range_down 0 (int (length s)) (chunk_size ck - chunk_overlap ck) = []"
    by (subst range_down.simps) simp
  then show ?thesis using a by (simp add: simple_chunk_def py_range_def)
qed

lemma simple_chunk_covers:
  assumes t: "tidy s" and o0: "0 \<le> chunk_overlap ck" and o1: "chunk_overlap ck < chunk_size ck"
    and k: "2 \<le> chunk_size ck" and i0: "0 \<le> i" and i1: "i < int (length s)"
  shows "\<exists>c \<in> set (concat (map (simple_window ck s p)
            (range_up 0 (int (length s)) (chunk_size ck - chunk_overlap ck)))).
           start_char c \<le> i \<and> i < end_char c"
proof -
  let ?step = "chunk_size ck - chunk_overlap ck"
  let ?j = "i - i mod ?step"
  have st: "0 < ?step" using o1 by simp
  have m0: "0 \<le> i mod ?step" using st by simp
  have m1: "i mod ?step < ?step" using st by simp
  have m2: "i mod ?step \<le> i" using i0 st by (simp add: zmod_le_nonneg_dividend)
  have j0: "0 \<le> ?j" using m2 by simp
  have j1: "?j < int (length s)" using m0 i1 by linarith
  have dv: "?step dvd (?j - 0)" by (simp add: minus_mod_eq_mult_div)
  have mem: "?j \<in> set (range_up 0 (int (length s)) ?step)"
    using range_up_mem[OF st, of ?j 0 "int (length s)"] j0 j1 dv by blast
  let ?c = "create_chunk (take (nat (chunk_size ck)) (drop (nat ?j) s)) p ?j
        (?j + min (chunk_size ck) (int (length s) - ?j))"
  have w: "simple_window ck s p ?j = [?c]" using simple_window_tidy[OF t k j0 j1] .
  have cin: "?c \<in> set (concat (map (simple_window ck s p)
            (range_up 0 (int (length s)) ?step)))"
    using mem w by (simp only: set_concat set_map) force
  have lo: "start_char ?c \<le> i" using m0 by (simp add: create_chunk_offsets)
  have "i < ?j + min (chunk_size ck) (int (length s) - ?j)" using m1 o0 i1 by linarith
  then have hi: "i < end_char ?c" by (simp add: create_chunk_offsets)
  show ?thesis using cin lo hi by blast
qed

lemma simple_chunk_250:
  assumes t: "tidy s" and l: "length s = 250"
    and k: "chunk_size ck = 100" and o: "chunk_overlap ck = 20"
  shows "\<exists>cs. simple_chunk ck s p = Inr cs \<and>
           ranges cs = [(0, 100), (80, 180), (160, 250), (240, 250)]"
proof -
  have r: "range_up 0 250 80 = [0, 80, 160, 240]" by (simp add: range_up.simps)
  have k2: "2 \<le> chunk_size ck" using k by simp
  have w0: "simple_window ck s p 0 = [create_chunk (take (nat (chunk_size ck)) (drop (nat 0) s)) p 0
        (0 + min (chunk_size ck) (int (length s) - 0))]"
    using simple_window_tidy[OF t k2, of 0 p] l by simp
  have w1: "simple_window ck s p 80 = [create_chunk (take (nat (chunk_size ck)) (drop (nat 80) s)) p 80
        (80 + min (chunk_size ck) (int (length s) - 80))]"
    using simple_window_tidy[OF t k2, of 80 p] l by simp
  have w2: "simple_window ck s p 160 = [create_chunk (take (nat (chunk_size ck)) (drop (nat 160) s)) p 160
        (160 + min (chunk_size ck) (int (length s) - 160))]"
    using simple_window_tidy[OF t k2, of 160 p] l by simp
  have w3: "simple_window ck s p 240 = [create_chunk (take (nat (chunk_size ck)) (drop (nat 240) s)) p 240
        (240 + min (chunk_size ck) (int (length s) - 240))]"
    using simple_window_tidy[OF t k2, of 240 p] l by simp
  have "simple_chunk ck s p =
      Inr (concat (map (simple_window ck s p) [0, 80, 160, 240]))"
    using simple_chunk_up[of ck s p] k o l r by simp
  then have e: "simple_chunk ck s p =
      Inr (simple_window ck s p 0 @ simple_window ck s p 80 @
           simple_window ck s p 160 @ simple_window ck s p 240)"
    by simp
  show ?thesis
    unfolding e w0 w1 w2 w3 using k l by (simp add: ranges_def create_chunk_offsets)
qed

lemma tidy_replicate: "\<not> is_space c \<Longrightarrow> tidy (replicate n c)"
proof -
  assume c: "\<not> is_space c"
  have "spaced b (replicate n c)" for b using c by (induction n arbitrary: b) simp_all
  moreover have "n = 0 \<or> last (replicate n c) = c" by (cases n) simp_all
  ultimately show ?thesis using c by (auto simp add: tidy_def)
qed

lemma tidy_text_250: "tidy text_250"
  unfolding text_250_def by (rule tidy_replicate) (simp add: is_space_def)

lemma paper_a_text: "preprocess_paper paper_a = ''Title: A Abstract: B''"
  by code_simp

lemma paper_b_text: "preprocess_paper paper_b = ''Title: C Abstract: D''"
  by code_simp

lemma test_paper_chunks:
  "chunk_paper test_chunker test_paper =
     Inr [create_chunk (preprocess_paper test_paper) test_paper 120 240]"
proof -
  have l: "length (preprocess_paper test_paper) = 120" by (simp add: test_paper_text)
  show ?thesis using chunk_paper_long[of test_paper test_chunker] l by (simp add: test_chunker_def)
qed

text \<open>
  C2. In paragraph mode the offsets of a chunk can lie outside the text. For the tests' paper
  (preprocessed text of 120 characters) and the tests' chunker (size 100, overlap 20),
  \<^verbatim>\<open>chunk_paper\<close> gives one chunk that holds the whole text with the offsets 120 and 240,
  a range in which the text has no character.
\<close>

theorem chunk_paper_offset_drift:
  "length (preprocess_paper test_paper) = 120 \<and>
   (\<exists>c. chunk_paper test_chunker test_paper = Inr [c] \<and>
        chunk_text c = preprocess_paper test_paper \<and>
        start_char c = 120 \<and> end_char c = 240 \<and>
        py_slice (preprocess_paper test_paper) (start_char c) (end_char c) = [])"
proof -
  have l: "length (preprocess_paper test_paper) = 120" by (simp add: test_paper_text)
  have "py_slice (preprocess_paper test_paper) 120 240 = []"
    using l by (simp add: py_slice_def py_bound_def)
  then show ?thesis using l test_paper_chunks by (simp add: create_chunk_offsets)
qed

text \<open>
  C9. Chunk ids collide within a batch. Two different papers without identifier whose
  preprocessed texts have the same length get the same chunk id, and so do the chunks of a
  paper that occurs twice in the batch (the batch of the repository's own uniqueness test).
\<close>

theorem chunk_ids_collide:
  "map chunk_id (chunk_multiple_papers test_chunker [paper_a, paper_b]) =
     [''None_0_20'', ''None_0_20''] \<and>
   map chunk_id (chunk_multiple_papers test_chunker [test_paper, test_paper]) =
     [''None_120_240'', ''None_120_240'']"
proof
  show "map chunk_id (chunk_multiple_papers test_chunker [paper_a, paper_b]) =
     [''None_0_20'', ''None_0_20'']"
    by code_simp
next
  have i: "chunk_id (create_chunk s test_paper 120 240) = ''None_120_240''" for s
    by (simp add: create_chunk_def test_paper_def or_else_def str_opt_def str_int_def
        str_nat.simps digit_char_def)
  show "map chunk_id (chunk_multiple_papers test_chunker [test_paper, test_paper]) =
     [''None_120_240'', ''None_120_240'']"
    by (simp add: chunk_multiple_papers_def test_paper_chunks i)
qed

text \<open>
  C7, the claim as stated fails: with an overlap equal to the chunk size the fallback raises
  \<^verbatim>\<open>ValueError\<close>; with a larger overlap it gives no chunk, which is not what an overlap
  clamped to the chunk size minus one gives.
\<close>

theorem degenerate_overlap_counterexample:
  "chunk_paper equal_overlap_chunker paper_a = Inl ValueError \<and>
   chunk_paper larger_overlap_chunker paper_a = Inr [] \<and>
   chunk_paper clamped_overlap_chunker paper_a \<noteq> Inr []"
  by code_simp

lemma chunk_multiple_papers_Cons:
  "chunk_multiple_papers ck (p # papers) =
     (case chunk_paper ck p of Inl e \<Rightarrow> [] | Inr cs \<Rightarrow> cs) @ chunk_multiple_papers ck papers"
  by (simp add: chunk_multiple_papers_def)

lemma degenerate_short:
  assumes d: "chunk_size ck \<le> chunk_overlap ck" and s: "length (preprocess_paper p) \<le> 50"
  shows "chunk_paper ck p = (if chunk_overlap ck = chunk_size ck then Inl ValueError else Inr [])"
proof (cases "chunk_overlap ck = chunk_size ck")
  case True
  then show ?thesis using chunk_paper_short[OF s, of ck] simple_chunk_zero_step[of ck] by simp
next
  case False
  then have "chunk_size ck < chunk_overlap ck" using d by simp
  then show ?thesis using chunk_paper_short[OF s, of ck] simple_chunk_down[of ck] False by simp
qed

lemma degenerate_batch:
  assumes d: "chunk_size ck \<le> chunk_overlap ck"
  shows "map chunk_text (chunk_multiple_papers ck papers) =
           map preprocess_paper (filter (\<lambda>p. 50 < length (preprocess_paper p)) papers)"
proof (induction papers)
  case Nil
  show ?case by (simp add: chunk_multiple_papers_def)
next
  case (Cons p papers)
  show ?case
  proof (cases "50 < length (preprocess_paper p)")
    case True
    have "map chunk_text (case chunk_paper ck p of Inl e \<Rightarrow> [] | Inr cs \<Rightarrow> cs) =
          [preprocess_paper p]"
      using chunk_paper_long[OF True, of ck] by (simp add: create_chunk_offsets)
    then show ?thesis using Cons True by (simp add: chunk_multiple_papers_Cons)
  next
    case False
    then have s: "length (preprocess_paper p) \<le> 50" by simp
    have "(case chunk_paper ck p of Inl e \<Rightarrow> [] | Inr cs \<Rightarrow> cs) = []"
      using degenerate_short[OF d s] by simp
    then show ?thesis using Cons False by (simp add: chunk_multiple_papers_Cons)
  qed
qed

text \<open>
  C7, amended. With an overlap of at least the chunk size nothing is clamped. A paper whose
  preprocessed text has at most 50 characters (the fallback) raises \<^verbatim>\<open>ValueError\<close> when the
  overlap equals the chunk size and gets no chunk when the overlap is larger; a longer paper
  gets its single chunk as always. \<^verbatim>\<open>chunk_multiple_papers\<close> skips a paper that raises and
  goes on with the next one: for every batch its result holds, in the order of the batch,
  exactly the whole-text chunks of the papers with more than 50 characters.
\<close>

theorem degenerate_overlap:
  assumes d: "chunk_size ck \<le> chunk_overlap ck"
  shows "(length (preprocess_paper p) \<le> 50 \<longrightarrow>
           chunk_paper ck p = (if chunk_overlap ck = chunk_size ck then Inl ValueError else Inr [])) \<and>
         (50 < length (preprocess_paper p) \<longrightarrow>
           (\<exists>c. chunk_paper ck p = Inr [c] \<and> chunk_text c = preprocess_paper p)) \<and>
         map chunk_text (chunk_multiple_papers ck papers) =
           map preprocess_paper (filter (\<lambda>p. 50 < length (preprocess_paper p)) papers)"
proof (intro conjI impI)
  assume "length (preprocess_paper p) \<le> 50"
  then show "chunk_paper ck p = (if chunk_overlap ck = chunk_size ck then Inl ValueError else Inr [])"
    using degenerate_short[OF d] by blast
next
  assume "50 < length (preprocess_paper p)"
  then show "\<exists>c. chunk_paper ck p = Inr [c] \<and> chunk_text c = preprocess_paper p"
    using chunk_paper_long[of p ck] by (simp add: create_chunk_offsets)
next
  show "map chunk_text (chunk_multiple_papers ck papers) =
           map preprocess_paper (filter (\<lambda>p. 50 < length (preprocess_paper p)) papers)"
    using degenerate_batch[OF d] .
qed

theorem degenerate_overlap_witness:
  "chunk_size equal_overlap_chunker \<le> chunk_overlap equal_overlap_chunker \<and>
   length (preprocess_paper paper_a) \<le> 50 \<and>
   chunk_paper equal_overlap_chunker paper_a = Inl ValueError \<and>
   50 < length (preprocess_paper test_paper) \<and>
   (\<exists>c. chunk_paper equal_overlap_chunker test_paper = Inr [c] \<and>
        chunk_text c = preprocess_paper test_paper) \<and>
   map chunk_text (chunk_multiple_papers equal_overlap_chunker [paper_a, test_paper, paper_b]) =
     [preprocess_paper test_paper]"
proof -
  have d: "chunk_size equal_overlap_chunker \<le> chunk_overlap equal_overlap_chunker"
    by (simp add: equal_overlap_chunker_def)
  have e: "chunk_overlap equal_overlap_chunker = chunk_size equal_overlap_chunker"
    by (simp add: equal_overlap_chunker_def)
  have a: "length (preprocess_paper paper_a) \<le> 50" by (simp add: paper_a_text)
  have b: "length (preprocess_paper paper_b) \<le> 50" by (simp add: paper_b_text)
  have t: "50 < length (preprocess_paper test_paper)" by (simp add: test_paper_text)
  have w1: "chunk_paper equal_overlap_chunker paper_a = Inl ValueError"
    using degenerate_overlap[OF d, of paper_a] a e by simp
  have w2: "\<exists>c. chunk_paper equal_overlap_chunker test_paper = Inr [c] \<and>
        chunk_text c = preprocess_paper test_paper"
    using degenerate_overlap[OF d, of test_paper] t by blast
  have w3: "map chunk_text (chunk_multiple_papers equal_overlap_chunker [paper_a, test_paper, paper_b]) =
     [preprocess_paper test_paper]"
    using degenerate_overlap[OF d, of paper_a "[paper_a, test_paper, paper_b]"] a b t by simp
  show ?thesis using d a t w1 w2 w3 by blast
qed

text \<open>
  C3, the claim as stated fails. The fallback on a text of 250 characters with size 100 and
  overlap 20 gives four windows, not three. With size 1 the windows that hold a space are
  skipped, so the offsets 6, 8 and 18 of \<^verbatim>\<open>Title: A Abstract: B\<close> are in no chunk; with a
  negative overlap the stride exceeds the size and leaves the offsets 10 to 14 out; with an
  overlap above the size there is no chunk at all.
\<close>

theorem fallback_coverage_counterexample:
  "map_sum id ranges (simple_chunk test_chunker text_250 paper_a) =
     Inr [(0, 100), (80, 180), (160, 250), (240, 250)] \<and>
   length (preprocess_paper paper_a) = 20 \<and>
   map_sum id ranges (chunk_paper single_char_chunker paper_a) =
     Inr [(0, 1), (1, 2), (2, 3), (3, 4), (4, 5), (5, 6), (7, 8), (9, 10), (10, 11), (11, 12),
          (12, 13), (13, 14), (14, 15), (15, 16), (16, 17), (17, 18), (19, 20)] \<and>
   map_sum id ranges (chunk_paper negative_overlap_chunker paper_a) = Inr [(0, 10), (15, 20)] \<and>
   chunk_paper larger_overlap_chunker paper_a = Inr []"
proof (intro conjI)
  obtain cs where "simple_chunk test_chunker text_250 paper_a = Inr cs"
    and "ranges cs = [(0, 100), (80, 180), (160, 250), (240, 250)]"
    using simple_chunk_250[OF tidy_text_250, of test_chunker paper_a]
    by (auto simp add: text_250_def test_chunker_def)
  then show "map_sum id ranges (simple_chunk test_chunker text_250 paper_a) =
     Inr [(0, 100), (80, 180), (160, 250), (240, 250)]"
    by simp
next
  show "length (preprocess_paper paper_a) = 20" by (simp add: paper_a_text)
next
  show "map_sum id ranges (chunk_paper single_char_chunker paper_a) =
     Inr [(0, 1), (1, 2), (2, 3), (3, 4), (4, 5), (5, 6), (7, 8), (9, 10), (10, 11), (11, 12),
          (12, 13), (13, 14), (14, 15), (15, 16), (16, 17), (17, 18), (19, 20)]"
    by code_simp
next
  show "map_sum id ranges (chunk_paper negative_overlap_chunker paper_a) = Inr [(0, 10), (15, 20)]"
    by code_simp
next
  show "chunk_paper larger_overlap_chunker paper_a = Inr []"
    by code_simp
qed

text \<open>
  C3, amended. With an overlap from 0 up to below the chunk size and a chunk size of at least
  2, the fallback chunks of a paper (one whose preprocessed text has at most 50 characters)
  cover every offset of the preprocessed text. Applied to a text of 250 characters that
  neither starts nor ends with whitespace and has no two adjacent whitespace characters,
  with size 100 and overlap 20, \<^verbatim>\<open>_simple_chunk\<close> gives the four windows at offsets
  0 to 100, 80 to 180, 160 to 250 and 240 to 250.
\<close>

theorem fallback_coverage:
  assumes o0: "0 \<le> chunk_overlap ck" and o1: "chunk_overlap ck < chunk_size ck"
    and k: "2 \<le> chunk_size ck"
  shows "(length (preprocess_paper p) \<le> 50 \<longrightarrow>
           (\<exists>cs. chunk_paper ck p = Inr cs \<and>
              (\<forall>i. 0 \<le> i \<and> i < int (length (preprocess_paper p)) \<longrightarrow>
                 (\<exists>c \<in> set cs. start_char c \<le> i \<and> i < end_char c)))) \<and>
         (tidy s \<and> length s = 250 \<and> chunk_size ck = 100 \<and> chunk_overlap ck = 20 \<longrightarrow>
           (\<exists>cs. simple_chunk ck s p = Inr cs \<and>
              ranges cs = [(0, 100), (80, 180), (160, 250), (240, 250)]))"
proof (intro conjI impI)
  assume sh: "length (preprocess_paper p) \<le> 50"
  let ?cs = "concat (map (simple_window ck (preprocess_paper p) p)
            (range_up 0 (int (length (preprocess_paper p))) (chunk_size ck - chunk_overlap ck)))"
  have e: "chunk_paper ck p = Inr ?cs"
    using chunk_paper_short[OF sh, of ck] simple_chunk_up[OF o1, of "preprocess_paper p" p] by simp
  have "\<forall>i. 0 \<le> i \<and> i < int (length (preprocess_paper p)) \<longrightarrow>
                 (\<exists>c \<in> set ?cs. start_char c \<le> i \<and> i < end_char c)"
    using simple_chunk_covers[OF preprocess_paper_tidy o0 o1 k] by blast
  then show "\<exists>cs. chunk_paper ck p = Inr cs \<and>
              (\<forall>i. 0 \<le> i \<and> i < int (length (preprocess_paper p)) \<longrightarrow>
                 (\<exists>c \<in> set cs. start_char c \<le> i \<and> i < end_char c))"
    using e by blast
next
  assume "tidy s \<and> length s = 250 \<and> chunk_size ck = 100 \<and> chunk_overlap ck = 20"
  then show "\<exists>cs. simple_chunk ck s p = Inr cs \<and>
              ranges cs = [(0, 100), (80, 180), (160, 250), (240, 250)]"
    using simple_chunk_250[of s ck p] by blast
qed

theorem fallback_coverage_witness:
  "0 \<le> chunk_overlap test_chunker \<and> chunk_overlap test_chunker < chunk_size test_chunker \<and>
   2 \<le> chunk_size test_chunker \<and> length (preprocess_paper paper_a) \<le> 50 \<and>
   (\<exists>cs. chunk_paper test_chunker paper_a = Inr cs \<and>
      (\<exists>c \<in> set cs. start_char c \<le> 7 \<and> 7 < end_char c)) \<and>
   tidy text_250 \<and> length text_250 = 250 \<and>
   (\<exists>cs. simple_chunk test_chunker text_250 paper_a = Inr cs \<and>
      ranges cs = [(0, 100), (80, 180), (160, 250), (240, 250)])"
proof -
  have a: "0 \<le> chunk_overlap test_chunker" "chunk_overlap test_chunker < chunk_size test_chunker"
    "2 \<le> chunk_size test_chunker" "chunk_size test_chunker = 100" "chunk_overlap test_chunker = 20"
    by (simp_all add: test_chunker_def)
  have l: "length (preprocess_paper paper_a) = 20" by (simp add: paper_a_text)
  have t: "tidy text_250 \<and> length text_250 = 250" using tidy_text_250 by (simp add: text_250_def)
  note th = fallback_coverage[OF a(1) a(2) a(3), of paper_a text_250]
  have c1: "\<exists>cs. chunk_paper test_chunker paper_a = Inr cs \<and>
      (\<exists>c \<in> set cs. start_char c \<le> 7 \<and> 7 < end_char c)"
  proof -
    obtain cs where cs: "chunk_paper test_chunker paper_a = Inr cs"
      and cov: "\<forall>i. 0 \<le> i \<and> i < int (length (preprocess_paper paper_a)) \<longrightarrow>
                 (\<exists>c \<in> set cs. start_char c \<le> i \<and> i < end_char c)"
      using th l by auto
    have "\<exists>c \<in> set cs. start_char c \<le> 7 \<and> 7 < end_char c" using cov[rule_format, of 7] l by simp
    then show ?thesis using cs by blast
  qed
  have c2: "\<exists>cs. simple_chunk test_chunker text_250 paper_a = Inr cs \<and>
      ranges cs = [(0, 100), (80, 180), (160, 250), (240, 250)]"
    using th t a(4) a(5) by blast
  show ?thesis using a(1) a(2) a(3) l t c1 c2 by simp
qed

section \<open>Properties of query expansion and retrieval\<close>

lemma add_variations_extends:
  "\<exists>ys. add_variations mx vs expanded = expanded @ ys"
proof (induction vs arbitrary: expanded)
  case Nil
  show ?case by simp
next
  case (Cons v vs)
  show ?case
  proof (cases "v \<notin> set expanded \<and> int (length expanded) < mx")
    case True
    obtain ys where "add_variations mx vs (expanded @ [v]) = (expanded @ [v]) @ ys"
      using Cons[of "expanded @ [v]"] by blast
    then show ?thesis using True by simp
  next
    case False
    then show ?thesis using Cons[of expanded] by auto
  qed
qed

lemma add_variations_distinct:
  "distinct expanded \<Longrightarrow> distinct (add_variations mx vs expanded)"
  by (induction vs arbitrary: expanded) simp_all

lemma expand_phrases_extends:
  "\<exists>ys. expand_phrases mx query phrases expanded = expanded @ ys"
proof (induction phrases arbitrary: expanded)
  case Nil
  show ?case by simp
next
  case (Cons ph phrases)
  let ?e1 = "if ph \<notin> set expanded then expanded @ [ph] else expanded"
  let ?e2 = "add_variations mx (create_query_variations ph query) ?e1"
  obtain a where a: "?e1 = expanded @ a" by (cases "ph \<notin> set expanded") simp_all
  obtain b where b: "?e2 = ?e1 @ b" using add_variations_extends by blast
  obtain c where c: "expand_phrases mx query phrases ?e2 = ?e2 @ c" using Cons by blast
  have "expand_phrases mx query (ph # phrases) expanded = expand_phrases mx query phrases ?e2"
    by simp
  also have "\<dots> = ?e2 @ c" using c .
  also have "\<dots> = (?e1 @ b) @ c" using b by (simp only:)
  also have "\<dots> = ((expanded @ a) @ b) @ c" using a by (simp only:)
  finally show ?case by simp
qed

lemma expand_phrases_distinct:
  "distinct expanded \<Longrightarrow> distinct (expand_phrases mx query phrases expanded)"
proof (induction phrases arbitrary: expanded)
  case Nil
  then show ?case by simp
next
  case (Cons ph phrases)
  let ?e1 = "if ph \<notin> set expanded then expanded @ [ph] else expanded"
  have "distinct ?e1" using Cons(2) by simp
  then have "distinct (add_variations mx (create_query_variations ph query) ?e1)"
    by (rule add_variations_distinct)
  then show ?case using Cons(1) by simp
qed

lemma py_slice_to_positive:
  "1 \<le> k \<Longrightarrow> py_slice_to xs k = take (nat k) xs"
  by (simp add: py_slice_to_def py_bound_def take_min_length)

text \<open>
  C5, the claim as stated fails. With \<open>max_expansions\<close> 0 or negative the result is empty:
  it has no first element, and its length 0 exceeds a negative bound. Duplicates are
  detected by exact comparison, so two phrases that differ only in case are both kept. The
  retriever passes the raw query, so the first element is the query as typed, not the
  cleaned one.
\<close>

theorem expand_query_counterexample:
  "expand_query no_nlp ''transformers'' 0 = [] \<and>
   expand_query no_nlp ''transformers'' (- 1) = [] \<and>
   expand_query bert_nlp ''BERT vs bert'' 5 =
     [''BERT vs bert'', ''BERT'', ''research on BERT'', ''BERT studies'', ''bert''] \<and>
   lower ''BERT'' = lower ''bert'' \<and>
   expanded_queries (optimize_query_for_retrieval no_nlp '' What  is x? '') = ['' What  is x? ''] \<and>
   processed_query (optimize_query_for_retrieval no_nlp '' What  is x? '') = ''What is x?''"
  by code_simp

text \<open>
  C5, amended. For a non-empty query and \<open>max_expansions\<close> of at least 1, whatever the
  language pipeline returns, the result starts with the query as passed, holds no string
  twice, and has at most \<open>max_expansions\<close> elements.
\<close>

theorem expand_query_contract:
  assumes q: "query \<noteq> []" and m: "1 \<le> max_expansions"
  shows "expand_query env query max_expansions \<noteq> [] \<and>
         hd (expand_query env query max_expansions) = query \<and>
         distinct (expand_query env query max_expansions) \<and>
         int (length (expand_query env query max_expansions)) \<le> max_expansions"
proof -
  let ?all = "expand_phrases max_expansions query
                (extract_key_phrases env query max_expansions) [query]"
  obtain ys where ys: "?all = [query] @ ys" using expand_phrases_extends by blast
  have d: "distinct ?all" by (rule expand_phrases_distinct) simp
  have e: "expand_query env query max_expansions = take (nat max_expansions) ?all"
    using q py_slice_to_positive[OF m] by (simp add: expand_query_def)
  obtain n where n: "nat max_expansions = Suc n" using m by (cases "nat max_expansions") simp_all
  have t: "take (nat max_expansions) ?all = query # take n ys" unfolding n ys by simp
  have l: "length (take (nat max_expansions) ?all) \<le> nat max_expansions" by simp
  have "distinct (take (nat max_expansions) ?all)" using d by (rule distinct_take)
  then show ?thesis using e t l m by simp
qed

theorem expand_query_contract_witness:
  "''BERT vs bert'' \<noteq> [] \<and> (1::int) \<le> 3 \<and>
   expand_query bert_nlp ''BERT vs bert'' 3 \<noteq> [] \<and>
   hd (expand_query bert_nlp ''BERT vs bert'' 3) = ''BERT vs bert'' \<and>
   distinct (expand_query bert_nlp ''BERT vs bert'' 3) \<and>
   int (length (expand_query bert_nlp ''BERT vs bert'' 3)) \<le> 3"
  using expand_query_contract[of "''BERT vs bert''" 3 bert_nlp] by simp

subsection \<open>Retrieval\<close>

lemma add_new_results_all:
  assumes "list_all (\<lambda>r. t \<le> similarity r) rs"
    and "list_all (\<lambda>r. t \<le> similarity r) additional"
  shows "list_all (\<lambda>r. t \<le> similarity r) (fst (add_new_results k rs (additional, ids)))"
  using assms
proof (induction rs arbitrary: additional ids)
  case Nil
  then show ?case by simp
next
  case (Cons r rs)
  have r: "t \<le> similarity r" and rs: "list_all (\<lambda>r. t \<le> similarity r) rs"
    using Cons(2) by simp_all
  show ?case
  proof (cases "res_chunk_id r \<notin> ids \<and> int (length additional) < k")
    case True
    have "list_all (\<lambda>r. t \<le> similarity r) (additional @ [r\<lparr>from_expanded_query := True\<rparr>])"
      using Cons(3) r by simp
    then show ?thesis using Cons(1)[OF rs] True by simp
  next
    case False
    then show ?thesis using Cons(1)[OF rs Cons(3)] by auto
  qed
qed

lemma search_expanded_loop_all:
  assumes m: "meets_threshold search"
    and a: "list_all (\<lambda>r. t \<le> similarity r) additional"
  shows "list_all (\<lambda>r. t \<le> similarity r) (search_expanded_loop search qs k t (additional, ids))"
  using a
proof (induction qs arbitrary: additional ids)
  case Nil
  then show ?case by simp
next
  case (Cons q qs)
  show ?case
  proof (cases "k \<le> int (length additional)")
    case True
    then show ?thesis using Cons(2) by simp
  next
    case False
    show ?thesis
    proof (cases "search q k t")
      case None
      then show ?thesis using False Cons(1)[OF Cons(2)] by simp
    next
      case (Some rs)
      have "list_all (\<lambda>r. t \<le> similarity r) rs"
        using m Some unfolding meets_threshold_def by (metis option.simps(5))
      then have f: "list_all (\<lambda>r. t \<le> similarity r) (fst (add_new_results k rs (additional, ids)))"
        using Cons(2) by (rule add_new_results_all)
      obtain a' ids' where p: "add_new_results k rs (additional, ids) = (a', ids')"
        by (cases "add_new_results k rs (additional, ids)")
      have "list_all (\<lambda>r. t \<le> similarity r) a'" using f p by simp
      then have "list_all (\<lambda>r. t \<le> similarity r) (search_expanded_loop search qs k t (a', ids'))"
        by (rule Cons(1))
      then show ?thesis using False Some p by simp
    qed
  qed
qed

lemma sort_by_similarity_sorted:
  "sorted_wrt (\<lambda>a b. similarity b \<le> similarity a) (sort_by_similarity rs)"
proof -
  have "sorted (map (\<lambda>r. - similarity r) (sort_key (\<lambda>r. - similarity r) rs))"
    by (rule sorted_sort_key)
  then show ?thesis by (simp add: sort_by_similarity_def sorted_map)
qed

lemma set_sort_by_similarity: "set (sort_by_similarity rs) = set rs"
  by (simp add: sort_by_similarity_def)

lemma sorted_wrt_prefix: "sorted_wrt P xs \<Longrightarrow> sorted_wrt P (take n xs)"
  by (rule sorted_wrt_take)

lemma retrieve_shape:
  assumes q: "query \<noteq> []" and k: "0 < k"
    and s: "search (processed_query (optimize_query_for_retrieval env query)) k
              (effective_threshold cfg t) = Some results"
  shows "\<exists>pool. set pool \<subseteq> set results \<union>
            set (search_expanded_queries search
                   (expanded_queries (optimize_query_for_retrieval env query))
                   (k - int (length results)) (effective_threshold cfg t) results) \<and>
          retrieve env cfg search query (Some k) t =
            map (\<lambda>r. r\<lparr>query_metadata :=
                          Some (query_type (optimize_query_for_retrieval env query),
                                search_terms (optimize_query_for_retrieval env query))\<rparr>)
              (take (nat k) (sort_by_similarity pool))"
proof -
  let ?pq = "optimize_query_for_retrieval env query"
  let ?ex = "search_expanded_queries search (expanded_queries ?pq)
               (k - int (length results)) (effective_threshold cfg t) results"
  let ?pool = "if int (length results) < k \<and> expanded_queries ?pq \<noteq> []
                then results @ ?ex else results"
  have ek: "effective_top_k cfg (Some k) = k" using k by (simp add: effective_top_k_def)
  have sl: "py_slice_to xs k = take (nat k) xs" for xs :: "result list"
    using py_slice_to_positive[of k xs] k by simp
  have sub: "set ?pool \<subseteq> set results \<union> set ?ex" by auto
  have "retrieve env cfg search query (Some k) t =
      map (\<lambda>r. r\<lparr>query_metadata := Some (query_type ?pq, search_terms ?pq)\<rparr>)
        (take (nat k) (sort_by_similarity ?pool))"
    using q s by (simp add: retrieve_def Let_def ek sl)
  then show ?thesis using sub by blast
qed

text \<open>
  C1, the claim as stated fails. A threshold of 0.0 is replaced by the configured one; with
  a negative configured threshold a search that honours the threshold it is given returns a
  result of similarity -0.2, and \<^verbatim>\<open>retrieve\<close> returns it for the threshold 0.
\<close>

theorem retrieve_counterexample:
  "meets_threshold one_chunk_store \<and>
   map similarity (retrieve no_nlp negative_config one_chunk_store ''q'' (Some 5) (Some 0)) =
     [- 1 / 5]"
proof
  show "meets_threshold one_chunk_store"
    by (simp add: meets_threshold_def one_chunk_store_def list_all_iff)
next
  have e: "expand_query no_nlp ''q'' 3 = [''q'']" by code_simp
  have p: "processed_query (optimize_query_for_retrieval no_nlp ''q'') = ''q''" by code_simp
  have x: "expanded_queries (optimize_query_for_retrieval no_nlp ''q'') = [''q'']"
    using e by (simp add: optimize_query_for_retrieval_def)
  show "map similarity (retrieve no_nlp negative_config one_chunk_store ''q'' (Some 5) (Some 0)) =
     [- 1 / 5]"
    by (simp add: retrieve_def Let_def p x effective_top_k_def effective_threshold_def
        negative_config_def one_chunk_store_def low_result_def search_expanded_queries_def
        sort_by_similarity_def py_slice_to_def py_bound_def)
qed

text \<open>
  C1, amended. Under the assumption on the search, for every query, every positive \<open>top_k\<close>
  and every threshold, \<^verbatim>\<open>retrieve\<close> returns at most \<open>top_k\<close> results, sorted by descending
  similarity, each with a similarity of at least the effective threshold: the given one when
  it is not zero, the configured one when it is zero or missing.
\<close>

theorem retrieve_contract:
  assumes m: "meets_threshold search" and k: "0 < k"
  shows "int (length (retrieve env cfg search query (Some k) t)) \<le> k \<and>
         (\<forall>r \<in> set (retrieve env cfg search query (Some k) t).
            effective_threshold cfg t \<le> similarity r) \<and>
         sorted_wrt (\<lambda>a b. similarity b \<le> similarity a)
           (retrieve env cfg search query (Some k) t)"
proof (cases "query = []")
  case True
  then show ?thesis using k by (simp add: retrieve_def)
next
  case False
  let ?pq = "optimize_query_for_retrieval env query"
  let ?th = "effective_threshold cfg t"
  have ek: "effective_top_k cfg (Some k) = k" using k by (simp add: effective_top_k_def)
  show ?thesis
  proof (cases "search (processed_query ?pq) k ?th")
    case None
    then show ?thesis using False k by (simp add: retrieve_def Let_def ek)
  next
    case (Some results)
    let ?ex = "search_expanded_queries search (expanded_queries ?pq)
               (k - int (length results)) ?th results"
    let ?f = "\<lambda>r. r\<lparr>query_metadata := Some (query_type ?pq, search_terms ?pq)\<rparr>"
    obtain pool where sub: "set pool \<subseteq> set results \<union> set ?ex"
      and e: "retrieve env cfg search query (Some k) t =
                map ?f (take (nat k) (sort_by_similarity pool))"
      using retrieve_shape[where search = search and env = env and cfg = cfg and t = t, OF False k Some] by blast
    have r1: "list_all (\<lambda>r. ?th \<le> similarity r) results"
      using m Some unfolding meets_threshold_def by (metis option.simps(5))
    have r2: "list_all (\<lambda>r. ?th \<le> similarity r) ?ex"
      unfolding search_expanded_queries_def
      by (rule search_expanded_loop_all[OF m]) simp
    have all: "\<forall>r \<in> set pool. ?th \<le> similarity r"
      using sub r1 r2 by (auto simp add: list_all_iff)
    have len: "int (length (map ?f (take (nat k) (sort_by_similarity pool)))) \<le> k"
      using k by simp
    have "set (take (nat k) (sort_by_similarity pool)) \<subseteq> set pool"
      using set_take_subset[of "nat k" "sort_by_similarity pool"] set_sort_by_similarity[of pool]
      by simp
    then have low: "\<forall>r \<in> set (map ?f (take (nat k) (sort_by_similarity pool))).
                      ?th \<le> similarity r"
      using all by auto
    have "sorted_wrt (\<lambda>a b. similarity b \<le> similarity a) (take (nat k) (sort_by_similarity pool))"
      using sort_by_similarity_sorted by (rule sorted_wrt_prefix)
    then have srt: "sorted_wrt (\<lambda>a b. similarity b \<le> similarity a)
                      (map ?f (take (nat k) (sort_by_similarity pool)))"
      by (simp add: sorted_wrt_map)
    show ?thesis unfolding e using len low srt by blast
  qed
qed

lemma example_store_meets: "meets_threshold example_store"
proof -
  have "list_all (\<lambda>r. t \<le> similarity r)
          (py_slice_to (filter (\<lambda>r. t \<le> similarity r) stored_results) k)" for t k
    using set_take_subset[of "py_bound (length (filter (\<lambda>r. t \<le> similarity r) stored_results)) k"
        "filter (\<lambda>r. t \<le> similarity r) stored_results"]
    by (auto simp add: list_all_iff py_slice_to_def)
  then show ?thesis by (simp add: meets_threshold_def example_store_def)
qed

theorem retrieve_contract_witness:
  "meets_threshold example_store \<and> (0::int) < 2 \<and>
   int (length (retrieve no_nlp negative_config example_store ''q'' (Some 2) (Some (1 / 2)))) \<le> 2 \<and>
   list_all (\<lambda>r. 1 / 2 \<le> similarity r)
     (retrieve no_nlp negative_config example_store ''q'' (Some 2) (Some (1 / 2))) \<and>
   sorted_wrt (\<lambda>a b. similarity b \<le> similarity a)
     (retrieve no_nlp negative_config example_store ''q'' (Some 2) (Some (1 / 2)))"
proof -
  have k: "(0::int) < 2" by simp
  have t: "effective_threshold negative_config (Some (1 / 2)) = 1 / 2"
    by (simp add: effective_threshold_def)
  show ?thesis
    using retrieve_contract[OF example_store_meets k, of no_nlp negative_config "''q''" "Some (1 / 2)"]
      example_store_meets t
    by (simp add: list_all_iff)
qed

section \<open>Properties of the citation formatter\<close>

text \<open>
  C4. The counter is reset only for the numeric style. For the style \<^verbatim>\<open>apa\<close>, which also
  gets numeric markers, two successive calls on one formatter with the same arguments give
  different markers and citation numbers: 1 and 2 in the first call, 3 and 4 in the second.
\<close>

theorem citation_counter_not_reset:
  "texts_and_numbers (add_citations_twice fresh_formatter two_sentences two_chunks ''apa'') =
     Inr ((''alpha beta. [1] alpha beta. [2]'', [(''A'', Some 1), (''B'', Some 2)]),
          (''alpha beta. [3] alpha beta. [4]'', [(''A'', Some 3), (''B'', Some 4)]))"
  by code_simp

subsection \<open>The keys of the citation map\<close>

lemma chunk_title_get:
  "get (paper_title (res_metadata chunk)) = None \<Longrightarrow> chunk_title chunk = []"
  "get (paper_title (res_metadata chunk)) = Some t \<Longrightarrow> chunk_title chunk = t"
  by (simp_all add: chunk_title_def)

lemma citation_map_loop_keeps: "set (map fst cm) \<subseteq> set (map fst (create_citation_map_loop chunks cm))"
proof (induction chunks arbitrary: cm)
  case Nil
  show ?case by simp
next
  case (Cons chunk chunks)
  let ?cm' = "case get (paper_title (res_metadata chunk)) of
          None \<Rightarrow> cm
        | Some t \<Rightarrow>
            if t \<noteq> [] \<and> t \<notin> set (map fst cm)
            then cm @ [(t, create_citation_from_metadata (res_metadata chunk))]
            else cm"
  have a: "set (map fst cm) \<subseteq> set (map fst ?cm')"
    by (cases "get (paper_title (res_metadata chunk))") auto
  have b: "set (map fst ?cm') \<subseteq> set (map fst (create_citation_map_loop chunks ?cm'))"
    by (rule Cons)
  have e: "create_citation_map_loop (chunk # chunks) cm = create_citation_map_loop chunks ?cm'"
    by simp
  show ?case unfolding e using a b by (rule subset_trans)
qed

lemma citation_map_loop_titles:
  "c \<in> set chunks \<Longrightarrow> chunk_title c \<noteq> [] \<Longrightarrow>
     chunk_title c \<in> set (map fst (create_citation_map_loop chunks cm))"
proof (induction chunks arbitrary: cm)
  case Nil
  then show ?case by simp
next
  case (Cons chunk chunks)
  let ?cm' = "case get (paper_title (res_metadata chunk)) of
          None \<Rightarrow> cm
        | Some t \<Rightarrow>
            if t \<noteq> [] \<and> t \<notin> set (map fst cm)
            then cm @ [(t, create_citation_from_metadata (res_metadata chunk))]
            else cm"
  have e: "create_citation_map_loop (chunk # chunks) cm = create_citation_map_loop chunks ?cm'"
    by simp
  show ?case
  proof (cases "c = chunk")
    case True
    obtain t where t: "get (paper_title (res_metadata chunk)) = Some t" and ne: "t \<noteq> []"
      and ct: "chunk_title chunk = t"
      using Cons(3) True by (cases "get (paper_title (res_metadata chunk))") (auto simp add: chunk_title_def)
    have "t \<in> set (map fst ?cm')" using t ne by auto
    then have "t \<in> set (map fst (create_citation_map_loop chunks ?cm'))"
      using citation_map_loop_keeps[of ?cm' chunks] by blast
    then show ?thesis using e True ct by (simp only:)
  next
    case False
    then have "c \<in> set chunks" using Cons(2) by simp
    then have "chunk_title c \<in> set (map fst (create_citation_map_loop chunks ?cm'))"
      using Cons(1) Cons(3) by blast
    then show ?thesis using e by (simp only:)
  qed
qed

lemma number_citations_keys: "map fst (snd (number_citations n cm)) = map fst cm"
proof (induction cm arbitrary: n)
  case Nil
  show ?case by simp
next
  case (Cons a cm)
  obtain t c where a: "a = (t, c)" by (cases a)
  obtain m cm' where r: "number_citations (n + 1) cm = (m, cm')"
    by (cases "number_citations (n + 1) cm")
  have "map fst cm' = map fst cm" using Cons[of "n + 1"] r by simp
  then show ?case using a r by simp
qed

lemma set_citation_keys: "map fst (set_citation t c cm) = map fst cm"
  by (induction cm) (auto simp add: set_citation_def)

lemma start_keys:
  "map fst (snd (if lower style = ''numeric'' then number_citations 0 (create_citation_map chunks)
                 else (citation_counter fm, create_citation_map chunks))) =
   map fst (create_citation_map chunks)"
  by (simp add: number_citations_keys)

subsection \<open>One sentence\<close>

lemma first_uncited_Cons:
  "first_uncited (chunk # chunks) seen sentence =
     (if qualifies sentence chunk \<and> chunk_title chunk \<notin> seen then Some (chunk_title chunk)
      else first_uncited chunks seen sentence)"
  by (simp add: first_uncited_def)

lemma qualifies_get:
  "get (paper_title (res_metadata chunk)) = None \<Longrightarrow> \<not> qualifies sentence chunk"
  "get (paper_title (res_metadata chunk)) = Some t \<Longrightarrow>
     qualifies sentence chunk = (t \<noteq> [] \<and> sentence_cites_paper sentence (res_text chunk))"
  by (simp_all add: qualifies_def chunk_title_def)

lemma cite_sentence_rule:
  assumes keys: "\<forall>c \<in> set chunks. chunk_title c \<noteq> [] \<longrightarrow> chunk_title c \<in> set (map fst (cmap st))"
  shows "\<exists>entry st'. cite_sentence style chunks sentence st =
            Inr (entry, first_uncited chunks (cited st) sentence, st') \<and>
          marked_as sentence (entry, first_uncited chunks (cited st) sentence) \<and>
          cited st' = cited st \<union> set_option (first_uncited chunks (cited st) sentence) \<and>
          map fst (cmap st') = map fst (cmap st)"
  using keys
proof (induction chunks)
  case Nil
  show ?case by (simp add: first_uncited_def marked_as_def)
next
  case (Cons chunk chunks)
  have ih: "\<exists>entry st'. cite_sentence style chunks sentence st =
            Inr (entry, first_uncited chunks (cited st) sentence, st') \<and>
          marked_as sentence (entry, first_uncited chunks (cited st) sentence) \<and>
          cited st' = cited st \<union> set_option (first_uncited chunks (cited st) sentence) \<and>
          map fst (cmap st') = map fst (cmap st)"
    using Cons by simp
  show ?case
  proof (cases "get (paper_title (res_metadata chunk))")
    case None
    have "cite_sentence style (chunk # chunks) sentence st = cite_sentence style chunks sentence st"
      using None by simp
    moreover have "first_uncited (chunk # chunks) (cited st) sentence =
                   first_uncited chunks (cited st) sentence"
      using qualifies_get(1)[OF None] by (simp add: first_uncited_Cons)
    ultimately show ?thesis using ih by (simp only:)
  next
    case (Some t)
    have ct: "chunk_title chunk = t" using chunk_title_get(2)[OF Some] .
    have q: "qualifies sentence chunk = (t \<noteq> [] \<and> sentence_cites_paper sentence (res_text chunk))"
      using qualifies_get(2)[OF Some] .
    show ?thesis
    proof (cases "qualifies sentence chunk \<and> t \<notin> cited st")
      case False
      have "cite_sentence style (chunk # chunks) sentence st = cite_sentence style chunks sentence st"
        using Some False q by auto
      moreover have "first_uncited (chunk # chunks) (cited st) sentence =
                     first_uncited chunks (cited st) sentence"
        using False ct by (auto simp add: first_uncited_Cons)
      ultimately show ?thesis using ih by (simp only:)
    next
      case True
      have fu: "first_uncited (chunk # chunks) (cited st) sentence = Some t"
        using True ct by (simp add: first_uncited_Cons)
      have "t \<noteq> []" using True q by simp
      then have "t \<in> set (map fst (cmap st))" using Cons(2) ct by auto
      then obtain c where c: "map_of (cmap st) t = Some c"
        using map_of_eq_None_iff[of "cmap st" t] by (cases "map_of (cmap st) t") auto
      obtain marker n c' where r: "render_marker style (counter st) c = (marker, n, c')"
        by (cases "render_marker style (counter st) c")
      let ?st' = "\<lparr>counter = n, cmap = set_citation t c' (cmap st), cited = insert t (cited st)\<rparr>"
      have e: "cite_sentence style (chunk # chunks) sentence st =
                 Inr (sentence @ '' '' @ marker, Some t, ?st')"
        using Some True q c r by simp
      have m: "marked_as sentence (sentence @ '' '' @ marker, Some t)"
        by (simp add: marked_as_def)
      have k: "map fst (cmap ?st') = map fst (cmap st)" by (simp add: set_citation_keys)
      have ci: "cited ?st' = cited st \<union> set_option (Some t)" by simp
      show ?thesis unfolding fu using e m k ci by blast
    qed
  qed
qed

subsection \<open>All sentences\<close>

lemma cite_sentences_rule:
  assumes keys: "\<forall>c \<in> set chunks. chunk_title c \<noteq> [] \<longrightarrow> chunk_title c \<in> set (map fst (cmap st))"
  shows "\<exists>marked st'. cite_sentences style chunks sentences st = Inr (marked, st') \<and>
          list_all2 marked_as sentences marked \<and>
          map snd marked = expected_marks chunks (cited st) sentences"
  using keys
proof (induction sentences arbitrary: st)
  case Nil
  show ?case by simp
next
  case (Cons sentence sentences)
  let ?m = "first_uncited chunks (cited st) sentence"
  obtain entry st1 where s1: "cite_sentence style chunks sentence st = Inr (entry, ?m, st1)"
    and m1: "marked_as sentence (entry, ?m)"
    and c1: "cited st1 = cited st \<union> set_option ?m"
    and k1: "map fst (cmap st1) = map fst (cmap st)"
    using cite_sentence_rule[OF Cons(2), of style sentence] by blast
  have keys1: "\<forall>c \<in> set chunks. chunk_title c \<noteq> [] \<longrightarrow> chunk_title c \<in> set (map fst (cmap st1))"
    using Cons(2) k1 by (simp only:)
  obtain marked st2 where s2: "cite_sentences style chunks sentences st1 = Inr (marked, st2)"
    and m2: "list_all2 marked_as sentences marked"
    and e2: "map snd marked = expected_marks chunks (cited st1) sentences"
    using Cons(1)[OF keys1] by blast
  have r: "cite_sentences style chunks (sentence # sentences) st = Inr ((entry, ?m) # marked, st2)"
    using s1 s2 by simp
  have l: "list_all2 marked_as (sentence # sentences) ((entry, ?m) # marked)"
    using m1 m2 by simp
  have x: "map snd ((entry, ?m) # marked) = expected_marks chunks (cited st) (sentence # sentences)"
    using e2 c1 by simp
  show ?case using r l x by blast
qed

subsection \<open>The rule cites a paper at most once\<close>

lemma first_uncited_fresh: "first_uncited chunks seen sentence = Some t \<Longrightarrow> t \<notin> seen"
proof -
  assume "first_uncited chunks seen sentence = Some t"
  then obtain chunk where f: "find (\<lambda>chunk. qualifies sentence chunk \<and> chunk_title chunk \<notin> seen) chunks = Some chunk"
    and t: "chunk_title chunk = t"
    by (auto simp add: first_uncited_def)
  have "qualifies sentence chunk \<and> chunk_title chunk \<notin> seen"
    using f by (auto simp add: find_Some_iff)
  then show ?thesis using t by blast
qed

lemma first_uncited_none:
  "\<forall>c \<in> set chunks. \<not> qualifies sentence c \<Longrightarrow> first_uncited chunks seen sentence = None"
  by (auto simp add: first_uncited_def find_None_iff)

lemma expected_marks_fresh:
  "distinct (cited_titles (expected_marks chunks seen sentences)) \<and>
   set (cited_titles (expected_marks chunks seen sentences)) \<inter> seen = {}"
proof (induction sentences arbitrary: seen)
  case Nil
  show ?case by (simp add: cited_titles_def)
next
  case (Cons sentence sentences)
  let ?m = "first_uncited chunks seen sentence"
  let ?rest = "cited_titles (expected_marks chunks (seen \<union> set_option ?m) sentences)"
  have ih: "distinct ?rest \<and> set ?rest \<inter> (seen \<union> set_option ?m) = {}" by (rule Cons)
  show ?case
  proof (cases ?m)
    case None
    have "cited_titles (expected_marks chunks seen (sentence # sentences)) = ?rest"
      using None by (simp add: cited_titles_def)
    then show ?thesis using ih None by auto
  next
    case (Some t)
    have e: "cited_titles (expected_marks chunks seen (sentence # sentences)) = t # ?rest"
      using Some by (simp add: cited_titles_def)
    have f: "t \<notin> seen" using Some by (rule first_uncited_fresh)
    have "t \<notin> set ?rest" using ih Some by auto
    then show ?thesis unfolding e using ih f by auto
  qed
qed

lemma expected_marks_length: "length (expected_marks chunks seen sentences) = length sentences"
  by (induction sentences arbitrary: seen) simp_all

lemma expected_marks_no_match:
  "i < length sentences \<Longrightarrow> \<forall>c \<in> set chunks. \<not> qualifies (sentences ! i) c \<Longrightarrow>
     expected_marks chunks seen sentences ! i = None"
proof (induction sentences arbitrary: i seen)
  case Nil
  then show ?case by simp
next
  case (Cons sentence sentences)
  show ?case
  proof (cases i)
    case 0
    then show ?thesis using Cons(3) first_uncited_none[of chunks sentence seen] by simp
  next
    case (Suc j)
    then show ?thesis using Cons by simp
  qed
qed

text \<open>
  C8, the claim as stated fails. Both sentences match the chunks of both papers. The first
  sentence takes the marker of paper A and the loop leaves it there, so paper B, whose chunk
  the first sentence matches as well, is cited at the second sentence.
\<close>

theorem attribution_counterexample:
  "split_sentences two_sentences = [''alpha beta.'', ''alpha beta.''] \<and>
   qualifies ''alpha beta.'' (two_chunks ! 1) \<and>
   chunk_title (two_chunks ! 1) = ''B'' \<and>
   map_sum id (\<lambda>r. map snd (fst r)) (attribute fresh_formatter two_sentences two_chunks ''numeric'') =
     Inr [Some ''A'', Some ''B''] \<and>
   map_sum id fst (add_citations_to_text fresh_formatter two_sentences two_chunks ''numeric'') =
     Inr ''alpha beta. [1] alpha beta. [2]''"
  by code_simp

text \<open>
  C8, amended. For every text, chunk list, style and formatter, the sentence loop raises no
  error; each sentence is left as it is or gets one marker appended; the paper marked at a
  sentence is the one of the first chunk, in the order of the chunk list, that has a
  non-empty title, matches the sentence, and whose paper was not cited at an earlier
  sentence; no paper is cited twice; and a sentence that no chunk matches stays unmarked.
  The text returned for a non-empty chunk list is these sentences joined by single spaces.
\<close>

theorem attribution_rule:
  "\<exists>marked st. attribute fm txt chunks style = Inr (marked, st) \<and>
     list_all2 marked_as (split_sentences txt) marked \<and>
     map snd marked = expected_marks chunks {} (split_sentences txt) \<and>
     distinct (cited_titles (map snd marked)) \<and>
     (\<forall>i < length marked.
        (\<forall>c \<in> set chunks. \<not> qualifies (split_sentences txt ! i) c) \<longrightarrow>
        marked ! i = (split_sentences txt ! i, None)) \<and>
     (chunks \<noteq> [] \<longrightarrow>
        add_citations_to_text fm txt chunks style =
          Inr (join '' '' (map fst marked), cmap st, fm\<lparr>citation_counter := counter st\<rparr>))"
proof -
  let ?start = "if lower style = ''numeric'' then number_citations 0 (create_citation_map chunks)
                else (citation_counter fm, create_citation_map chunks)"
  let ?st0 = "\<lparr>counter = fst ?start, cmap = snd ?start, cited = {}\<rparr>"
  let ?ss = "split_sentences txt"
  have k0: "map fst (cmap ?st0) = map fst (create_citation_map chunks)"
    using start_keys[of style chunks fm] by simp
  have "\<forall>c \<in> set chunks. chunk_title c \<noteq> [] \<longrightarrow>
          chunk_title c \<in> set (map fst (create_citation_map chunks))"
    using citation_map_loop_titles[of _ chunks "[]"] by (simp add: create_citation_map_def)
  then have keys: "\<forall>c \<in> set chunks. chunk_title c \<noteq> [] \<longrightarrow>
          chunk_title c \<in> set (map fst (cmap ?st0))"
    using k0 by (simp only:)
  obtain marked st where r: "cite_sentences style chunks ?ss ?st0 = Inr (marked, st)"
    and l: "list_all2 marked_as ?ss marked"
    and e: "map snd marked = expected_marks chunks (cited ?st0) ?ss"
    using cite_sentences_rule[OF keys, of style ?ss] by blast
  have a: "attribute fm txt chunks style = Inr (marked, st)"
    using r by (simp add: attribute_def Let_def)
  have e0: "map snd marked = expected_marks chunks {} ?ss" using e by simp
  have d: "distinct (cited_titles (map snd marked))"
    unfolding e0 using expected_marks_fresh[of chunks "{}" ?ss] by blast
  have len: "length marked = length ?ss" using l by (simp add: list_all2_lengthD)
  have nm: "\<forall>i < length marked.
        (\<forall>c \<in> set chunks. \<not> qualifies (?ss ! i) c) \<longrightarrow> marked ! i = (?ss ! i, None)"
  proof (intro allI impI)
    fix i
    assume i: "i < length marked" and n: "\<forall>c \<in> set chunks. \<not> qualifies (?ss ! i) c"
    have i': "i < length ?ss" using i len by simp
    have "snd (marked ! i) = expected_marks chunks {} ?ss ! i"
      using e0 i nth_map[of i marked snd] by simp
    then have s: "snd (marked ! i) = None"
      using expected_marks_no_match[OF i' n, of "{}"] by simp
    have "marked_as (?ss ! i) (marked ! i)" using l i' by (simp add: list_all2_nthD)
    then have "fst (marked ! i) = ?ss ! i" using s by (simp add: marked_as_def)
    then show "marked ! i = (?ss ! i, None)" using s by (simp add: prod_eq_iff)
  qed
  have t: "chunks \<noteq> [] \<longrightarrow>
        add_citations_to_text fm txt chunks style =
          Inr (join '' '' (map fst marked), cmap st, fm\<lparr>citation_counter := counter st\<rparr>)"
    using a by (simp add: add_citations_to_text_def)
  show ?thesis using a l e0 d nm t by blast
qed

theorem attribution_rule_witness:
  "two_chunks \<noteq> [] \<and>
   (\<exists>marked st. attribute fresh_formatter ''alpha beta. gamma delta.'' two_chunks ''numeric'' =
        Inr (marked, st) \<and>
      distinct (cited_titles (map snd marked)) \<and>
      marked ! 1 = (''gamma delta.'', None) \<and>
      add_citations_to_text fresh_formatter ''alpha beta. gamma delta.'' two_chunks ''numeric'' =
        Inr (join '' '' (map fst marked), cmap st, fresh_formatter\<lparr>citation_counter := counter st\<rparr>))"
proof -
  have ne: "two_chunks \<noteq> []" by (simp add: two_chunks_def)
  have ss: "split_sentences ''alpha beta. gamma delta.'' = [''alpha beta.'', ''gamma delta.'']"
    by code_simp
  have q0: "\<not> qualifies ''gamma delta.'' (two_chunks ! 0)" by code_simp
  have q1: "\<not> qualifies ''gamma delta.'' (two_chunks ! 1)" by code_simp
  have nq: "\<forall>c \<in> set two_chunks. \<not> qualifies ''gamma delta.'' c"
    using q0 q1 by (simp add: two_chunks_def)
  obtain marked st where
    a: "attribute fresh_formatter ''alpha beta. gamma delta.'' two_chunks ''numeric'' = Inr (marked, st)"
    and l: "list_all2 marked_as (split_sentences ''alpha beta. gamma delta.'') marked"
    and d: "distinct (cited_titles (map snd marked))"
    and nm: "\<forall>i < length marked.
        (\<forall>c \<in> set two_chunks. \<not> qualifies (split_sentences ''alpha beta. gamma delta.'' ! i) c) \<longrightarrow>
        marked ! i = (split_sentences ''alpha beta. gamma delta.'' ! i, None)"
    and t: "two_chunks \<noteq> [] \<longrightarrow>
        add_citations_to_text fresh_formatter ''alpha beta. gamma delta.'' two_chunks ''numeric'' =
          Inr (join '' '' (map fst marked), cmap st, fresh_formatter\<lparr>citation_counter := counter st\<rparr>)"
    using attribution_rule[of fresh_formatter "''alpha beta. gamma delta.''" two_chunks "''numeric''"]
    by blast
  have "length (split_sentences ''alpha beta. gamma delta.'') = length marked"
    using l by (rule list_all2_lengthD)
  then have len: "length marked = 2" using ss by simp
  have "marked ! 1 = (split_sentences ''alpha beta. gamma delta.'' ! 1, None)"
    using nm[rule_format, of 1] len nq ss by simp
  then have m1: "marked ! 1 = (''gamma delta.'', None)" using ss by simp
  show ?thesis using ne a d m1 t by blast
qed

end
